theory Spec2Isabelle
  imports Complex_Main
begin

section \<open>Physics objects and event batches\<close>

text \<open>
  The notebook works on NanoAOD event batches held in jagged arrays: every event owns a
  variable-length list of electrons, of muons and of jets. A jagged array is a list of
  lists here, one inner list per event. Floating-point columns are real numbers, so the
  model has no NaN and no rounding; boolean columns are \<open>bool\<close>, integer identification
  codes are \<open>int\<close>.
\<close>

record electron =
  el_pt :: real
  el_eta :: real
  cutBased :: int
  el_sip3d :: real

record muon =
  mu_pt :: real
  mu_eta :: real
  tightId :: bool
  mu_sip3d :: real
  pfRelIso04_all :: real

record jet =
  jet_pt :: real
  jet_eta :: real
  jet_phi :: real
  jet_mass :: real
  isTightLeptonVeto :: bool
  btagCSVV2 :: real

text \<open>
  What the array library, the selection helper and Python raise is a value of \<open>error\<close>:
  \<open>BroadcastError\<close> for two arrays whose shapes do not fit, \<open>DuplicateName\<close>,
  \<open>SlotsExhausted\<close> and \<open>UnknownName\<close> for the selection helper, \<open>IndexError\<close> for a
  column slice beyond the shortest event, \<open>ZeroDivisionError\<close> for the normalisation,
  \<open>TypeError\<close> for an object of the wrong kind, \<open>ValueError\<close> for a string that is
  no number, \<open>NameError\<close> for a local variable read before it is bound,
  \<open>ServiceError\<close> for a failure of the correction service.
\<close>

datatype error =
  BroadcastError
  | DuplicateName
  | SlotsExhausted
  | UnknownName
  | IndexError
  | ZeroDivisionError
  | TypeError
  | ValueError
  | NameError
  | ServiceError

definition ebind :: "error + 'a \<Rightarrow> ('a \<Rightarrow> error + 'b) \<Rightarrow> error + 'b" where
  "ebind m f = (case m of Inl e \<Rightarrow> Inl e | Inr x \<Rightarrow> f x)"

definition B_TAG_THRESHOLD :: real where
  "B_TAG_THRESHOLD = 0.5"

section \<open>Object selection\<close>

definition electron_reqs :: "electron \<Rightarrow> bool" where
  "electron_reqs e \<longleftrightarrow> el_pt e > 30 \<and> \<bar>el_eta e\<bar> < 2.1 \<and> cutBased e = 4 \<and> el_sip3d e < 4"

definition muon_reqs :: "muon \<Rightarrow> bool" where
  "muon_reqs m \<longleftrightarrow>
     mu_pt m > 30 \<and> \<bar>mu_eta m\<bar> < 2.1 \<and> tightId m \<and> mu_sip3d m < 4 \<and> pfRelIso04_all m < 0.15"

definition jet_reqs :: "jet \<Rightarrow> bool" where
  "jet_reqs j \<longleftrightarrow> jet_pt j > 30 \<and> \<bar>jet_eta j\<bar> < 2.4 \<and> isTightLeptonVeto j"

definition object_selection ::
  "electron list list \<Rightarrow> muon list list \<Rightarrow> jet list list \<Rightarrow>
   electron list list \<times> muon list list \<times> jet list list" where
  "object_selection elecs muons jets =
     (map (filter electron_reqs) elecs, map (filter muon_reqs) muons, map (filter jet_reqs) jets)"

section \<open>Region selection\<close>

text \<open>
  \<open>ak_num\<close> is the per-event object count, \<open>ak_add\<close> the elementwise sum of two
  per-event columns (it raises when their lengths differ), \<open>btag_sum\<close> the per-event
  number of jets whose b-tag score is above the threshold
  (\<^verbatim>\<open>ak.sum(jets.btagCSVV2 > B_TAG_THRESHOLD, axis=1)\<close>).
\<close>

definition ak_num :: "'a list list \<Rightarrow> nat list" where
  "ak_num xs = map length xs"

definition ak_add :: "nat list \<Rightarrow> nat list \<Rightarrow> error + nat list" where
  "ak_add xs ys = (if length xs = length ys then Inr (map2 (+) xs ys) else Inl BroadcastError)"

definition btagged :: "jet \<Rightarrow> bool" where
  "btagged j \<longleftrightarrow> btagCSVV2 j > B_TAG_THRESHOLD"

definition btag_sum :: "jet list list \<Rightarrow> nat list" where
  "btag_sum jets = map (\<lambda>js. length (filter btagged js)) jets"

text \<open>
  The selection helper \<^verbatim>\<open>PackedSelection\<close> keeps named per-event boolean masks in the
  order they were added. Adding raises on a name that is already there, on a 65th name
  (the masks are packed into 64-bit words) and on a mask whose length differs from the
  masks already stored. \<^verbatim>\<open>all(names)\<close> is the per-event conjunction of the named masks
  and raises on a name that was never added.
\<close>

type_synonym packed_selection = "(string \<times> bool list) list"

definition selections_add ::
  "packed_selection \<Rightarrow> string \<Rightarrow> bool list \<Rightarrow> error + packed_selection" where
  "selections_add sel name selection =
     (if name \<in> set (map fst sel) then Inl DuplicateName
      else if 64 \<le> length sel then Inl SlotsExhausted
      else if sel \<noteq> [] \<and> length (snd (hd sel)) \<noteq> length selection then Inl BroadcastError
      else Inr (sel @ [(name, selection)]))"

definition selection_rows :: "packed_selection \<Rightarrow> nat" where
  "selection_rows sel = (case sel of [] \<Rightarrow> 0 | (_, selection) # _ \<Rightarrow> length selection)"

fun require_all :: "packed_selection \<Rightarrow> string list \<Rightarrow> error + bool list" where
  "require_all sel [] = Inr (replicate (selection_rows sel) True)"
| "require_all sel (name # names) =
     (case map_of sel name of
        None \<Rightarrow> Inl UnknownName
      | Some selection \<Rightarrow>
          ebind (require_all sel names) (\<lambda>rest. Inr (map2 (\<and>) selection rest)))"

definition selections_all :: "packed_selection \<Rightarrow> string list \<Rightarrow> error + bool list" where
  "selections_all sel names = require_all sel names"

definition region_selection ::
  "electron list list \<Rightarrow> muon list list \<Rightarrow> jet list list \<Rightarrow> error + packed_selection" where
  "region_selection elecs muons jets =
     ebind (ak_add (ak_num elecs) (ak_num muons)) (\<lambda>nlep.
     ebind (selections_add [] ''exactly_1l'' (map (\<lambda>n. n = 1) nlep)) (\<lambda>s1.
     ebind (selections_add s1 ''atleast_4j'' (map (\<lambda>n. 4 \<le> n) (ak_num jets))) (\<lambda>s2.
     ebind (selections_add s2 ''exactly_1b'' (map (\<lambda>n. n = 1) (btag_sum jets))) (\<lambda>s3.
     ebind (selections_add s3 ''atleast_2b'' (map (\<lambda>n. 2 \<le> n) (btag_sum jets))) (\<lambda>s4.
     ebind (selections_all s4 [''exactly_1l'', ''atleast_4j'', ''exactly_1b'']) (\<lambda>m1.
     ebind (selections_add s4 ''4j1b'' m1) (\<lambda>s5.
     ebind (selections_all s5 [''exactly_1l'', ''atleast_4j'', ''atleast_2b'']) (\<lambda>m2.
     selections_add s5 ''4j2b'' m2))))))))"

text \<open>The four atomic masks that \<open>region_selection\<close> registers.\<close>

definition atom_1l :: "electron list list \<Rightarrow> muon list list \<Rightarrow> bool list" where
  "atom_1l elecs muons = map (\<lambda>n. n = 1) (map2 (+) (ak_num elecs) (ak_num muons))"

definition atom_4j :: "jet list list \<Rightarrow> bool list" where
  "atom_4j jets = map (\<lambda>n. 4 \<le> n) (ak_num jets)"

definition atom_1b :: "jet list list \<Rightarrow> bool list" where
  "atom_1b jets = map (\<lambda>n. n = 1) (btag_sum jets)"

definition atom_2b :: "jet list list \<Rightarrow> bool list" where
  "atom_2b jets = map (\<lambda>n. 2 \<le> n) (btag_sum jets)"

text \<open>The atomic predicates and the two regions, event by event.\<close>

definition exactly_1l :: "electron list \<Rightarrow> muon list \<Rightarrow> bool" where
  "exactly_1l es ms \<longleftrightarrow> length es + length ms = 1"

definition atleast_4j :: "jet list \<Rightarrow> bool" where
  "atleast_4j js \<longleftrightarrow> 4 \<le> length js"

definition exactly_1b :: "jet list \<Rightarrow> bool" where
  "exactly_1b js \<longleftrightarrow> length (filter btagged js) = 1"

definition atleast_2b :: "jet list \<Rightarrow> bool" where
  "atleast_2b js \<longleftrightarrow> 2 \<le> length (filter btagged js)"

definition zip3 :: "'a list \<Rightarrow> 'b list \<Rightarrow> 'c list \<Rightarrow> ('a \<times> 'b \<times> 'c) list" where
  "zip3 xs ys zs = zip xs (zip ys zs)"

definition mask_4j1b :: "electron list list \<Rightarrow> muon list list \<Rightarrow> jet list list \<Rightarrow> bool list" where
  "mask_4j1b elecs muons jets =
     map (\<lambda>(es, ms, js). exactly_1l es ms \<and> atleast_4j js \<and> exactly_1b js) (zip3 elecs muons jets)"

definition mask_4j2b :: "electron list list \<Rightarrow> muon list list \<Rightarrow> jet list list \<Rightarrow> bool list" where
  "mask_4j2b elecs muons jets =
     map (\<lambda>(es, ms, js). exactly_1l es ms \<and> atleast_4j js \<and> atleast_2b js) (zip3 elecs muons jets)"

section \<open>Observables\<close>

text \<open>
  \<^verbatim>\<open>ak.combinations(jets, 3)\<close> lists, for one event, the triples of jets at positions
  \<open>i < j < k\<close> in lexicographic order of the positions.
\<close>

fun combinations2 :: "'a list \<Rightarrow> ('a \<times> 'a) list" where
  "combinations2 [] = []"
| "combinations2 (x # xs) = map (\<lambda>y. (x, y)) xs @ combinations2 xs"

fun combinations3 :: "'a list \<Rightarrow> ('a \<times> 'a \<times> 'a) list" where
  "combinations3 [] = []"
| "combinations3 (x # xs) = map (\<lambda>(y, z). (x, y, z)) (combinations2 xs) @ combinations3 xs"

text \<open>
  Four-momentum arithmetic belongs to the vector library: the conversion of a jet to a
  four-vector, the sum of two four-vectors, and the transverse momentum and invariant
  mass of a four-vector are parameters of the model.
\<close>

record 'v vector_ops =
  vec_of_jet :: "jet \<Rightarrow> 'v"
  vec_add :: "'v \<Rightarrow> 'v \<Rightarrow> 'v"
  vec_pt :: "'v \<Rightarrow> real"
  vec_mass :: "'v \<Rightarrow> real"

record 'v trijet =
  j1 :: jet
  j2 :: jet
  j3 :: jet
  p4 :: 'v
  max_btag :: real

definition make_trijet :: "'v vector_ops \<Rightarrow> jet \<times> jet \<times> jet \<Rightarrow> 'v trijet" where
  "make_trijet ops c =
     (case c of (a, b, d) \<Rightarrow>
        \<lparr>j1 = a, j2 = b, j3 = d,
         p4 = vec_add ops (vec_add ops (vec_of_jet ops a) (vec_of_jet ops b)) (vec_of_jet ops d),
         max_btag = max (btagCSVV2 a) (max (btagCSVV2 b) (btagCSVV2 d))\<rparr>)"

text \<open>
  \<^verbatim>\<open>ak.argmax(..., axis=1, keepdims=True)\<close> gives one position per event, the first one
  that holds the largest value, and the missing value \<open>None\<close> for an event whose list is
  empty (reducers mask the identity by default). Indexing with a missing position gives
  a missing element, and \<^verbatim>\<open>ak.flatten\<close> removes the list boundaries and keeps the
  elements, missing ones included.
\<close>

fun argmax_from :: "real list \<Rightarrow> nat \<Rightarrow> nat \<Rightarrow> real \<Rightarrow> nat" where
  "argmax_from [] i best v = best"
| "argmax_from (x # xs) i best v =
     (if v < x then argmax_from xs (Suc i) i x else argmax_from xs (Suc i) best v)"

definition ak_argmax :: "real list \<Rightarrow> nat option" where
  "ak_argmax xs = (case xs of [] \<Rightarrow> None | x # rest \<Rightarrow> Some (argmax_from rest 1 0 x))"

definition trijet_candidates :: "'v vector_ops \<Rightarrow> jet list \<Rightarrow> 'v trijet list" where
  "trijet_candidates ops js =
     filter (\<lambda>t. max_btag t > B_TAG_THRESHOLD) (map (make_trijet ops) (combinations3 js))"

definition calculate_m_reco_top :: "'v vector_ops \<Rightarrow> jet list list \<Rightarrow> real option list" where
  "calculate_m_reco_top ops jets =
     (let trijet = map (trijet_candidates ops) jets;
          idx = map (\<lambda>ts. [ak_argmax (map (\<lambda>t. vec_pt ops (p4 t)) ts)]) trijet;
          trijet_mass =
            map2 (\<lambda>ts ix. map (map_option (\<lambda>i. vec_mass ops (p4 (ts ! i)))) ix) trijet idx
      in concat trijet_mass)"

definition calculate_ht :: "jet list list \<Rightarrow> real option list" where
  "calculate_ht jets = map (\<lambda>js. Some (sum_list (map jet_pt js))) jets"

text \<open>
  The four-momenta of the vector library, for jets given by transverse momentum,
  pseudorapidity, azimuth and mass.
\<close>

definition cartesian_ops :: "(real \<times> real \<times> real \<times> real) vector_ops" where
  "cartesian_ops =
     \<lparr>vec_of_jet = (\<lambda>j. (jet_pt j * cos (jet_phi j), jet_pt j * sin (jet_phi j),
                          jet_pt j * sinh (jet_eta j),
                          sqrt ((jet_mass j)\<^sup>2 + (jet_pt j * cosh (jet_eta j))\<^sup>2))),
      vec_add = (\<lambda>(x, y, z, t) (x', y', z', t'). (x + x', y + y', z + z', t + t')),
      vec_pt = (\<lambda>(x, y, z, t). sqrt (x\<^sup>2 + y\<^sup>2)),
      vec_mass = (\<lambda>(x, y, z, t). sqrt (t\<^sup>2 - x\<^sup>2 - y\<^sup>2 - z\<^sup>2))\<rparr>"

section \<open>The processor\<close>

text \<open>
  An event batch is a list of events. Besides its three object collections an event
  carries the derived fields that \<^verbatim>\<open>process\<close> attaches: a field holds one number for
  the event or one number per jet of the event.
\<close>

datatype shift = PerEvent real | PerJet "real list"

record event =
  Electron :: "electron list"
  Muon :: "muon list"
  Jet :: "jet list"
  extra :: "(string \<times> shift) list"

record metadata =
  md_process :: string
  md_variation :: string
  md_xsec :: real
  md_nevts :: real
  md_dataset :: string

text \<open>
  Arrays are Python objects. The ones that \<^verbatim>\<open>process\<close> assigns into are kept in a
  heap, a list of objects addressed by position: the event batch and the jet arrays.
  Reading a field of the batch (\<^verbatim>\<open>events.Jet\<close>) makes a new array object over the
  field's content; assigning a field (\<^verbatim>\<open>jets["pt"] = ...\<close>) replaces the content of the
  object assigned into and of no other.
\<close>

datatype pyobj = EventsArray "event list" | JetArray "jet list list"

record fill_call =
  f_region :: string
  f_observable :: "real option list"
  f_process :: string
  f_variation :: string
  f_weight :: "real list"

record query =
  q_family :: string
  q_direction :: string
  q_input :: "real list"

record state =
  heap :: "pyobj list"
  fills :: "fill_call list"
  queries :: "query list"

text \<open>
  The two collaborators that are not part of the notebook: the smearing function
  \<^verbatim>\<open>rand_gauss\<close> of the \<^verbatim>\<open>utils\<close> package and the correction set loaded from
  \<^verbatim>\<open>corrections.json\<close>.
\<close>

record services =
  rand_gauss :: "real list list \<Rightarrow> real list list"
  evaluate :: "string \<Rightarrow> string \<Rightarrow> real list \<Rightarrow> error + real list"

fun emap :: "('a \<Rightarrow> error + 'b) \<Rightarrow> 'a list \<Rightarrow> error + 'b list" where
  "emap f [] = Inr []"
| "emap f (x # xs) = ebind (f x) (\<lambda>y. ebind (emap f xs) (\<lambda>ys. Inr (y # ys)))"

definition get_events :: "pyobj list \<Rightarrow> nat \<Rightarrow> error + event list" where
  "get_events h a =
     (if a < length h then (case h ! a of EventsArray evs \<Rightarrow> Inr evs | JetArray _ \<Rightarrow> Inl TypeError)
      else Inl NameError)"

definition get_jets :: "pyobj list \<Rightarrow> nat \<Rightarrow> error + jet list list" where
  "get_jets h a =
     (if a < length h then (case h ! a of JetArray js \<Rightarrow> Inr js | EventsArray _ \<Rightarrow> Inl TypeError)
      else Inl NameError)"

definition new_object :: "pyobj list \<Rightarrow> pyobj \<Rightarrow> nat \<times> pyobj list" where
  "new_object h obj = (length h, h @ [obj])"

definition getitem_field :: "event list \<Rightarrow> string \<Rightarrow> error + shift list" where
  "getitem_field evs name =
     emap (\<lambda>e. case map_of (extra e) name of None \<Rightarrow> Inl UnknownName | Some s \<Rightarrow> Inr s) evs"

definition setitem_scalar :: "event list \<Rightarrow> string \<Rightarrow> real \<Rightarrow> event list" where
  "setitem_scalar evs name c = map (\<lambda>e. e\<lparr>extra := (name, PerEvent c) # extra e\<rparr>) evs"

definition setitem_jagged :: "event list \<Rightarrow> string \<Rightarrow> real list list \<Rightarrow> error + event list" where
  "setitem_jagged evs name col =
     (if length col = length evs
      then Inr (map2 (\<lambda>e cs. e\<lparr>extra := (name, PerJet cs) # extra e\<rparr>) evs col)
      else Inl BroadcastError)"

fun mul_event :: "real list \<Rightarrow> shift \<Rightarrow> error + real list" where
  "mul_event ps (PerEvent c) = Inr (map (\<lambda>p. p * c) ps)"
| "mul_event ps (PerJet cs) =
     (if length ps = length cs then Inr (map2 (*) ps cs) else Inl BroadcastError)"

definition ak_mul :: "real list list \<Rightarrow> shift list \<Rightarrow> error + real list list" where
  "ak_mul pts shifts =
     (if length pts = length shifts then emap (\<lambda>(ps, s). mul_event ps s) (zip pts shifts)
      else Inl BroadcastError)"

definition with_pt :: "jet list list \<Rightarrow> real list list \<Rightarrow> jet list list" where
  "with_pt jets pts = map2 (\<lambda>js ps. map2 (\<lambda>j p. j\<lparr>jet_pt := p\<rparr>) js ps) jets pts"

definition apply_mask :: "'a list \<Rightarrow> bool list \<Rightarrow> error + 'a list" where
  "apply_mask xs selection =
     (if length xs = length selection then Inr (map fst (filter snd (zip xs selection)))
      else Inl IndexError)"

definition pt_column :: "jet list list \<Rightarrow> nat \<Rightarrow> error + real list" where
  "pt_column jets i = emap (\<lambda>js. if i < length js then Inr (jet_pt (js ! i)) else Inl IndexError) jets"

definition weights_mul :: "real list \<Rightarrow> real list \<Rightarrow> error + real list" where
  "weights_mul ws cs = (if length ws = length cs then Inr (map2 (*) ws cs) else Inl BroadcastError)"

text \<open>Strings: the decimal numeral of a number and back, and the text after the last underscore.\<close>

fun str_nat :: "nat \<Rightarrow> string" where
  "str_nat n =
     (if n < 10 then [char_of (48 + n)] else str_nat (n div 10) @ [char_of (48 + n mod 10)])"

declare str_nat.simps [simp del]

definition is_digit :: "char \<Rightarrow> bool" where
  "is_digit c \<longleftrightarrow> 48 \<le> (of_char c :: nat) \<and> (of_char c :: nat) \<le> 57"

definition int_of_str :: "string \<Rightarrow> error + nat" where
  "int_of_str s =
     (if s \<noteq> [] \<and> list_all is_digit s
      then Inr (foldl (\<lambda>acc c. 10 * acc + (of_char c - 48)) 0 s)
      else Inl ValueError)"

definition rsplit_last :: "string \<Rightarrow> string" where
  "rsplit_last s = rev (takeWhile (\<lambda>c. c \<noteq> CHR ''_'') (rev s))"

definition startswith :: "string \<Rightarrow> string \<Rightarrow> bool" where
  "startswith s pre \<longleftrightarrow> take (length pre) s = pre"

definition lumi :: real where
  "lumi = 3378"

definition xsec_weight :: "metadata \<Rightarrow> error + real" where
  "xsec_weight md =
     (if md_process md \<noteq> ''data''
      then (if md_nevts md = 0 then Inl ZeroDivisionError
            else Inr (md_xsec md * lumi / md_nevts md))
      else Inr 1)"

definition jet_kinematic_systs :: "string list" where
  "jet_kinematic_systs = [''pt_scale_up'', ''pt_res_up'']"

definition event_systs :: "string \<Rightarrow> string list" where
  "event_systs process =
     map (\<lambda>i. ''btag_var_'' @ str_nat i) [0..<4] @ (if process = ''wjets'' then [''scale_var''] else [])"

definition syst_variations :: "string \<Rightarrow> string \<Rightarrow> string list" where
  "syst_variations process variation =
     [''nominal''] @
     (if variation = ''nominal'' then jet_kinematic_systs @ event_systs process else [])"

definition regions :: "string list" where
  "regions = [''4j1b'', ''4j2b'']"

definition hist_fill ::
  "state \<Rightarrow> string \<Rightarrow> real option list \<Rightarrow> string \<Rightarrow> string \<Rightarrow> real list \<Rightarrow> state" where
  "hist_fill st region observable process variation weight =
     st\<lparr>fills := fills st @
        [\<lparr>f_region = region, f_observable = observable, f_process = process,
          f_variation = variation, f_weight = weight\<rparr>]\<rparr>"

definition cset_evaluate ::
  "services \<Rightarrow> state \<Rightarrow> string \<Rightarrow> string \<Rightarrow> real list \<Rightarrow> error + (real list \<times> state)" where
  "cset_evaluate sv st family direction input =
     ebind (evaluate sv family direction input) (\<lambda>w.
       Inr (w, st\<lparr>queries := queries st @
                   [\<lparr>q_family = family, q_direction = direction, q_input = input\<rparr>]\<rparr>))"

definition observable_of :: "'v vector_ops \<Rightarrow> string \<Rightarrow> jet list list \<Rightarrow> error + real option list" where
  "observable_of ops region region_jets =
     (if region = ''4j1b'' then Inr (calculate_ht region_jets)
      else if region = ''4j2b'' then Inr (calculate_m_reco_top ops region_jets)
      else Inl NameError)"

definition weight_input :: "string \<Rightarrow> jet list list \<Rightarrow> error + (string \<times> real list)" where
  "weight_input syst_var region_jets =
     (if syst_var = ''scale_var''
      then ebind (pt_column region_jets 0) (\<lambda>col. Inr (''scale_var'', col))
      else if startswith syst_var ''btag_var''
      then ebind (int_of_str (rsplit_last syst_var)) (\<lambda>i_jet.
           ebind (pt_column region_jets i_jet) (\<lambda>col. Inr (''btag_var'', col)))
      else Inl NameError)"

definition fill_direction ::
  "services \<Rightarrow> metadata \<Rightarrow> string \<Rightarrow> string \<Rightarrow> jet list list \<Rightarrow> real list \<Rightarrow>
   real option list \<Rightarrow> state \<Rightarrow> string \<Rightarrow> error + state" where
  "fill_direction sv md syst_var region region_jets region_weights observable st direction =
     ebind (weight_input syst_var region_jets) (\<lambda>(family, input).
     ebind (cset_evaluate sv st family direction input) (\<lambda>(wgt_variation, st1).
     ebind (weights_mul region_weights wgt_variation) (\<lambda>weight.
       Inr (hist_fill st1 region observable (md_process md)
              (syst_var @ ''_'' @ direction) weight))))"

fun efold :: "('s \<Rightarrow> 'a \<Rightarrow> error + 's) \<Rightarrow> 's \<Rightarrow> 'a list \<Rightarrow> error + 's" where
  "efold f s [] = Inr s"
| "efold f s (x # xs) = ebind (f s x) (\<lambda>s'. efold f s' xs)"

definition fill_region ::
  "'v vector_ops \<Rightarrow> services \<Rightarrow> metadata \<Rightarrow> real \<Rightarrow> string \<Rightarrow> packed_selection \<Rightarrow>
   jet list list \<Rightarrow> state \<Rightarrow> string \<Rightarrow> error + state" where
  "fill_region ops sv md w syst_var selections jets st region =
     ebind (selections_all selections [region]) (\<lambda>selection.
     ebind (apply_mask jets selection) (\<lambda>region_jets.
     let region_weights = map (\<lambda>n. 1 * w) (ak_num region_jets) in
     ebind (observable_of ops region region_jets) (\<lambda>observable.
       if syst_var \<in> set (event_systs (md_process md))
       then efold (fill_direction sv md syst_var region region_jets region_weights observable)
              st [''up'', ''down'']
       else Inr (hist_fill st region observable (md_process md)
                   (if md_variation md \<noteq> ''nominal'' then md_variation md else syst_var)
                   region_weights))))"

text \<open>
  The head of one pass of the variation loop: the three collections are read from the
  batch at address \<open>ev\<close>, the jet array is a new object, and a kinematic variation
  assigns the shifted momentum into that object.
\<close>

definition load_objects ::
  "nat \<Rightarrow> string \<Rightarrow> state \<Rightarrow>
   error + (electron list list \<times> muon list list \<times> nat \<times> state)" where
  "load_objects ev syst_var st =
     ebind (get_events (heap st) ev) (\<lambda>evs.
     let elecs = map Electron evs;
         muons = map Muon evs;
         (jets, h1) = new_object (heap st) (JetArray (map Jet evs))
     in if syst_var \<in> set jet_kinematic_systs
        then ebind (get_jets h1 jets) (\<lambda>js.
             ebind (get_events h1 ev) (\<lambda>evs1.
             ebind (getitem_field evs1 syst_var) (\<lambda>shifts.
             ebind (ak_mul (map (map jet_pt) js) shifts) (\<lambda>pts.
               Inr (elecs, muons, jets, st\<lparr>heap := h1[jets := JetArray (with_pt js pts)]\<rparr>)))))
        else Inr (elecs, muons, jets, st\<lparr>heap := h1\<rparr>))"

definition select_pass ::
  "nat \<Rightarrow> string \<Rightarrow> state \<Rightarrow>
   error + (electron list list \<times> muon list list \<times> jet list list \<times> packed_selection \<times> state)" where
  "select_pass ev syst_var st =
     ebind (load_objects ev syst_var st) (\<lambda>(elecs0, muons0, jets0, st1).
     ebind (get_jets (heap st1) jets0) (\<lambda>js.
     case object_selection elecs0 muons0 js of (elecs, muons, jets) \<Rightarrow>
     ebind (region_selection elecs muons jets) (\<lambda>selections.
       Inr (elecs, muons, jets, selections, st1))))"

definition variation_pass ::
  "'v vector_ops \<Rightarrow> services \<Rightarrow> metadata \<Rightarrow> real \<Rightarrow> nat \<Rightarrow> state \<Rightarrow> string \<Rightarrow> error + state" where
  "variation_pass ops sv md w ev st syst_var =
     ebind (select_pass ev syst_var st) (\<lambda>(elecs, muons, jets, selections, st1).
       efold (fill_region ops sv md w syst_var selections jets) st1 regions)"

definition attach_shifts :: "services \<Rightarrow> nat \<Rightarrow> pyobj list \<Rightarrow> error + pyobj list" where
  "attach_shifts sv ev h =
     ebind (get_events h ev) (\<lambda>evs.
     let h1 = h[ev := EventsArray (setitem_scalar evs ''pt_scale_up'' 1.03)] in
     ebind (get_events h1 ev) (\<lambda>evs1.
     ebind (setitem_jagged evs1 ''pt_res_up'' (rand_gauss sv (map (\<lambda>e. map jet_pt (Jet e)) evs1)))
       (\<lambda>evs2. Inr (h1[ev := EventsArray evs2]))))"

definition process :: "'v vector_ops \<Rightarrow> services \<Rightarrow> metadata \<Rightarrow> event list \<Rightarrow> error + state" where
  "process ops sv md events =
     (let ev = 0; h0 = [EventsArray events] in
      ebind (xsec_weight md) (\<lambda>w.
      ebind (attach_shifts sv ev h0) (\<lambda>h.
        efold (variation_pass ops sv md w ev) \<lparr>heap = h, fills = [], queries = []\<rparr>
          (syst_variations (md_process md) (md_variation md)))))"

text \<open>
  The entry of one event in the result of \<open>calculate_m_reco_top\<close>: the mass of the
  surviving candidate at the position that \<open>ak_argmax\<close> picks, or the missing value.
\<close>

definition trijet_mass_entry :: "'v vector_ops \<Rightarrow> jet list \<Rightarrow> real option" where
  "trijet_mass_entry ops js =
     (let ts = trijet_candidates ops js
      in map_option (\<lambda>i. vec_mass ops (p4 (ts ! i))) (ak_argmax (map (\<lambda>t. vec_pt ops (p4 t)) ts)))"

text \<open>
  The observable sequence as the specification words it: an event without a surviving
  candidate contributes no entry, every other event the mass of its best candidate.
\<close>

definition claimed_m_reco_top :: "'v vector_ops \<Rightarrow> jet list list \<Rightarrow> real list" where
  "claimed_m_reco_top ops jets =
     concat (map (\<lambda>js. case trijet_mass_entry ops js of None \<Rightarrow> [] | Some m \<Rightarrow> [m]) jets)"

text \<open>What a successful region selection has registered, in order.\<close>

definition registered ::
  "electron list list \<Rightarrow> muon list list \<Rightarrow> jet list list \<Rightarrow> packed_selection" where
  "registered elecs muons jets =
     [(''exactly_1l'', atom_1l elecs muons),
      (''atleast_4j'', atom_4j jets),
      (''exactly_1b'', atom_1b jets),
      (''atleast_2b'', atom_2b jets),
      (''4j1b'', mask_4j1b elecs muons jets),
      (''4j2b'', mask_4j2b elecs muons jets)]"

text \<open>Sample objects for the concrete scenarios.\<close>

definition demo_muon :: muon where
  "demo_muon = \<lparr>mu_pt = 45, mu_eta = 0.3, tightId = True, mu_sip3d = 1, pfRelIso04_all = 0.05\<rparr>"

definition demo_jet :: "real \<Rightarrow> real \<Rightarrow> jet" where
  "demo_jet p b = \<lparr>jet_pt = p, jet_eta = 0, jet_phi = 0, jet_mass = 0,
                   isTightLeptonVeto = True, btagCSVV2 = b\<rparr>"

definition demo_metadata :: "string \<Rightarrow> string \<Rightarrow> metadata" where
  "demo_metadata p v =
     \<lparr>md_process = p, md_variation = v, md_xsec = 800, md_nevts = 1000000,
      md_dataset = p @ ''__'' @ v\<rparr>"

text \<open>
  The jet collection that enters the object selection of one pass: the jets of the
  batch, with the momentum of a kinematic variation multiplied by the variation's field.
\<close>

definition pass_jets :: "event list \<Rightarrow> string \<Rightarrow> error + jet list list" where
  "pass_jets evs syst_var =
     (if syst_var \<in> set jet_kinematic_systs
      then ebind (getitem_field evs syst_var) (\<lambda>shifts.
           ebind (ak_mul (map (map jet_pt) (map Jet evs)) shifts) (\<lambda>pts.
             Inr (with_pt (map Jet evs) pts)))
      else Inr (map Jet evs))"

text \<open>The fill that one direction of a weight variation makes, and the query before it.\<close>

definition weighted_fill ::
  "metadata \<Rightarrow> real \<Rightarrow> string \<Rightarrow> string \<Rightarrow> real option list \<Rightarrow> string \<Rightarrow> real list \<Rightarrow> fill_call" where
  "weighted_fill md w syst_var region observable direction correction =
     \<lparr>f_region = region, f_observable = observable, f_process = md_process md,
      f_variation = syst_var @ ''_'' @ direction, f_weight = map (\<lambda>c. w * c) correction\<rparr>"

definition weight_query :: "string \<Rightarrow> string \<Rightarrow> real list \<Rightarrow> query" where
  "weight_query family direction input =
     \<lparr>q_family = family, q_direction = direction, q_input = input\<rparr>"

definition plain_fill ::
  "metadata \<Rightarrow> real \<Rightarrow> string \<Rightarrow> string \<Rightarrow> real option list \<Rightarrow> nat \<Rightarrow> fill_call" where
  "plain_fill md w syst_var region observable n =
     \<lparr>f_region = region, f_observable = observable, f_process = md_process md,
      f_variation = (if md_variation md \<noteq> ''nominal'' then md_variation md else syst_var),
      f_weight = replicate n w\<rparr>"

text \<open>
  Sample collaborators: a smearing that leaves every momentum as it is, and a
  correction service that knows the two families and gives every event the weight
  1.1 upwards and 0.9 downwards.
\<close>

definition demo_services :: services where
  "demo_services =
     \<lparr>rand_gauss = map (map (\<lambda>p. 1)),
      evaluate = (\<lambda>family direction input.
        if family = ''btag_var'' \<or> family = ''scale_var''
        then Inr (map (\<lambda>p. if direction = ''up'' then 1.1 else 0.9) input)
        else Inl ServiceError)\<rparr>"

definition demo_jets :: "jet list" where
  "demo_jets = [demo_jet 40 0.9, demo_jet 50 0.1, demo_jet 60 0.1, demo_jet 70 0.1]"

definition demo_event :: event where
  "demo_event = \<lparr>Electron = [], Muon = [demo_muon], Jet = demo_jets, extra = []\<rparr>"

definition empty_state :: state where
  "empty_state = \<lparr>heap = [], fills = [], queries = []\<rparr>"

text \<open>
  What the processor needs from its collaborators to run to the end: the smearing
  returns one factor per jet, and the correction service answers the two families with
  one weight per event.
\<close>

definition smearing_ok :: "services \<Rightarrow> bool" where
  "smearing_ok sv \<longleftrightarrow> (\<forall>pts. map length (rand_gauss sv pts) = map length pts)"

definition service_ok :: "services \<Rightarrow> bool" where
  "service_ok sv \<longleftrightarrow>
     (\<forall>family direction input.
        family = ''btag_var'' \<or> family = ''scale_var'' \<longrightarrow>
        (\<exists>c. evaluate sv family direction input = Inr c \<and> length c = length input))"

text \<open>The batch after \<open>attach_shifts\<close>, given the smearing factors.\<close>

definition shifted_batch :: "event list \<Rightarrow> real list list \<Rightarrow> event list" where
  "shifted_batch events res =
     map2 (\<lambda>e cs. e\<lparr>extra := (''pt_res_up'', PerJet cs) # extra e\<rparr>)
       (setitem_scalar events ''pt_scale_up'' 1.03) res"

definition demo_state :: state where
  "demo_state = \<lparr>heap = [EventsArray (shifted_batch [demo_event] [[1, 1, 1, 1]])],
                 fills = [], queries = []\<rparr>"

text \<open>
  A smearing with a different factor for each of the first four jets of an event, and
  the state in which the variation loop of \<open>process\<close> starts for \<open>demo_event\<close> with it.
\<close>

definition demo_smearing :: services where
  "demo_smearing = demo_services\<lparr>rand_gauss := map (\<lambda>ps. take (length ps) [1.1, 0.9, 1, 1.2])\<rparr>"

definition smeared_state :: state where
  "smeared_state = \<lparr>heap = [EventsArray (shifted_batch [demo_event] [[1.1, 0.9, 1, 1.2]])],
                    fills = [], queries = []\<rparr>"

text \<open>
  The number of fills a state holds for one region, and the number of fills one
  candidate variation makes per region.
\<close>

definition fills_in :: "string \<Rightarrow> state \<Rightarrow> nat" where
  "fills_in r st = length (filter (\<lambda>f. f_region f = r) (fills st))"

definition fan_out :: "string \<Rightarrow> string \<Rightarrow> nat" where
  "fan_out p v = (if v \<in> set (event_systs p) then 2 else 1)"

section \<open>Facts about the error monad\<close>

lemma ebind_Inr [simp]: "ebind (Inr x) f = f x"
  by (simp add: ebind_def)

lemma ebind_Inl [simp]: "ebind (Inl e) f = Inl e"
  by (simp add: ebind_def)

lemma ebind_eq_Inr: "ebind m f = Inr y \<longleftrightarrow> (\<exists>x. m = Inr x \<and> f x = Inr y)"
  by (cases m) simp_all

section \<open>Facts about the region selection\<close>

lemma atom_lengths:
  "length elecs = length muons \<Longrightarrow> length (atom_1l elecs muons) = length muons"
  "length (atom_4j jets) = length jets"
  "length (atom_1b jets) = length jets"
  "length (atom_2b jets) = length jets"
  by (simp_all add: atom_1l_def atom_4j_def atom_1b_def atom_2b_def ak_num_def btag_sum_def)

lemma mask_lengths:
  assumes "length elecs = length muons" "length muons = length jets"
  shows "length (mask_4j1b elecs muons jets) = length jets"
    and "length (mask_4j2b elecs muons jets) = length jets"
  using assms by (simp_all add: mask_4j1b_def mask_4j2b_def zip3_def)

lemma conj_4j1b:
  assumes "length elecs = length muons" "length muons = length jets"
  shows "map2 (\<and>) (atom_1l elecs muons)
       (map2 (\<and>) (atom_4j jets) (map2 (\<and>) (atom_1b jets) (replicate (length jets) True)))
     = mask_4j1b elecs muons jets"
  using assms
  by (intro nth_equalityI)
     (simp_all add: mask_4j1b_def zip3_def ak_num_def btag_sum_def exactly_1l_def
        atleast_4j_def exactly_1b_def atom_1l_def atom_4j_def atom_1b_def)

lemma conj_4j2b:
  assumes "length elecs = length muons" "length muons = length jets"
  shows "map2 (\<and>) (atom_1l elecs muons)
       (map2 (\<and>) (atom_4j jets) (map2 (\<and>) (atom_2b jets) (replicate (length jets) True)))
     = mask_4j2b elecs muons jets"
  using assms
  by (intro nth_equalityI)
     (simp_all add: mask_4j2b_def zip3_def ak_num_def btag_sum_def exactly_1l_def
        atleast_4j_def atleast_2b_def atom_1l_def atom_4j_def atom_2b_def)

lemma region_selection_unfold:
  "region_selection elecs muons jets =
     ebind (ak_add (ak_num elecs) (ak_num muons)) (\<lambda>nlep.
     ebind (selections_add [] ''exactly_1l'' (map (\<lambda>n. n = 1) nlep)) (\<lambda>s1.
     ebind (selections_add s1 ''atleast_4j'' (atom_4j jets)) (\<lambda>s2.
     ebind (selections_add s2 ''exactly_1b'' (atom_1b jets)) (\<lambda>s3.
     ebind (selections_add s3 ''atleast_2b'' (atom_2b jets)) (\<lambda>s4.
     ebind (selections_all s4 [''exactly_1l'', ''atleast_4j'', ''exactly_1b'']) (\<lambda>m1.
     ebind (selections_add s4 ''4j1b'' m1) (\<lambda>s5.
     ebind (selections_all s5 [''exactly_1l'', ''atleast_4j'', ''atleast_2b'']) (\<lambda>m2.
     selections_add s5 ''4j2b'' m2))))))))"
  by (simp add: region_selection_def atom_4j_def atom_1b_def atom_2b_def)

lemma region_selection_value:
  assumes "length elecs = length muons" "length muons = length jets"
  shows "region_selection elecs muons jets = Inr (registered elecs muons jets)"
proof -
  have add: "ak_add (ak_num elecs) (ak_num muons) = Inr (map2 (+) (ak_num elecs) (ak_num muons))"
    using assms by (simp add: ak_add_def ak_num_def)
  have fold: "map (\<lambda>n. n = 1) (map2 (+) (ak_num elecs) (ak_num muons)) = atom_1l elecs muons"
    by (simp only: atom_1l_def)
  show ?thesis
    unfolding region_selection_unfold add ebind_Inr fold registered_def
    using assms
    by (simp add: selections_add_def selections_all_def selection_rows_def atom_lengths
        mask_lengths conj_4j1b conj_4j2b)
qed

lemma region_selection_lengths:
  assumes "region_selection elecs muons jets = Inr sel"
  shows "length elecs = length muons \<and> length muons = length jets"
proof (rule ccontr)
  assume neg: "\<not> (length elecs = length muons \<and> length muons = length jets)"
  show False
  proof (cases "length elecs = length muons")
    case False
    then have "region_selection elecs muons jets = Inl BroadcastError"
      by (simp add: region_selection_unfold ak_add_def ak_num_def)
    with assms show False by simp
  next
    case True
    with neg have ne: "length muons \<noteq> length jets" by simp
    have "region_selection elecs muons jets = Inl BroadcastError"
      using True ne
      by (simp add: region_selection_unfold ak_add_def ak_num_def selections_add_def atom_4j_def)
    with assms show False by simp
  qed
qed

lemma region_selection_Inr:
  assumes "region_selection elecs muons jets = Inr sel"
  shows "sel = registered elecs muons jets"
  using assms region_selection_lengths [OF assms] region_selection_value by simp

lemma map_of_registered:
  "map_of (registered elecs muons jets) ''exactly_1l'' = Some (atom_1l elecs muons)"
  "map_of (registered elecs muons jets) ''atleast_4j'' = Some (atom_4j jets)"
  "map_of (registered elecs muons jets) ''exactly_1b'' = Some (atom_1b jets)"
  "map_of (registered elecs muons jets) ''atleast_2b'' = Some (atom_2b jets)"
  "map_of (registered elecs muons jets) ''4j1b'' = Some (mask_4j1b elecs muons jets)"
  "map_of (registered elecs muons jets) ''4j2b'' = Some (mask_4j2b elecs muons jets)"
  by (simp_all add: registered_def)

lemma registered_all:
  assumes "length elecs = length muons" "length muons = length jets"
  shows "selections_all (registered elecs muons jets) [''4j1b''] = Inr (mask_4j1b elecs muons jets)"
    and "selections_all (registered elecs muons jets) [''4j2b''] = Inr (mask_4j2b elecs muons jets)"
    and "selections_all (registered elecs muons jets) [''exactly_1l'', ''atleast_4j'', ''exactly_1b'']
           = Inr (mask_4j1b elecs muons jets)"
    and "selections_all (registered elecs muons jets) [''exactly_1l'', ''atleast_4j'', ''atleast_2b'']
           = Inr (mask_4j2b elecs muons jets)"
proof -
  have rows: "selection_rows (registered elecs muons jets) = length jets"
    using assms by (simp add: registered_def selection_rows_def atom_lengths)
  have id1: "map2 (\<and>) (mask_4j1b elecs muons jets) (replicate (length jets) True)
      = mask_4j1b elecs muons jets"
    using assms by (intro nth_equalityI) (simp_all add: mask_lengths)
  have id2: "map2 (\<and>) (mask_4j2b elecs muons jets) (replicate (length jets) True)
      = mask_4j2b elecs muons jets"
    using assms by (intro nth_equalityI) (simp_all add: mask_lengths)
  show "selections_all (registered elecs muons jets) [''4j1b''] = Inr (mask_4j1b elecs muons jets)"
    by (simp add: selections_all_def rows id1 map_of_registered)
  show "selections_all (registered elecs muons jets) [''4j2b''] = Inr (mask_4j2b elecs muons jets)"
    by (simp add: selections_all_def rows id2 map_of_registered)
  show "selections_all (registered elecs muons jets) [''exactly_1l'', ''atleast_4j'', ''exactly_1b'']
           = Inr (mask_4j1b elecs muons jets)"
    using assms by (simp add: selections_all_def rows map_of_registered conj_4j1b)
  show "selections_all (registered elecs muons jets) [''exactly_1l'', ''atleast_4j'', ''atleast_2b'']
           = Inr (mask_4j2b elecs muons jets)"
    using assms by (simp add: selections_all_def rows map_of_registered conj_4j2b)
qed

section \<open>Claims about the region selection\<close>

lemma tagged_scenario:
  assumes "map btagCSVV2 js = [0.9, 0.9, 0.1, 0.1]"
  shows "atleast_4j js \<and> atleast_2b js \<and> \<not> exactly_1b js"
proof -
  from assms obtain a b c d where js: "js = [a, b, c, d]"
    and v: "btagCSVV2 a = 0.9" "btagCSVV2 b = 0.9" "btagCSVV2 c = 0.1" "btagCSVV2 d = 0.1"
    by (auto simp: map_eq_Cons_conv)
  show ?thesis
    by (simp add: js v atleast_4j_def atleast_2b_def exactly_1b_def btagged_def B_TAG_THRESHOLD_def)
qed

text \<open>
  Claim C3. When the three collections belong to the same batch, the region selection
  succeeds; the mask registered as \<open>4j1b\<close> is the conjunction of the atomic masks
  \<open>exactly_1l\<close>, \<open>atleast_4j\<close> and \<open>exactly_1b\<close>, the mask registered as \<open>4j2b\<close> the
  conjunction of \<open>exactly_1l\<close>, \<open>atleast_4j\<close> and \<open>atleast_2b\<close>; event by event
  they say: one lepton, at least four jets, and one (respectively at least two) jets
  with a b-tag score above 0.5. An event with one lepton and four jets of scores
  0.9, 0.9, 0.1, 0.1 is in \<open>4j2b\<close> and not in \<open>4j1b\<close>.
\<close>

theorem region_masks_are_conjunctions:
  assumes "length elecs = length muons" and "length muons = length jets"
  shows "\<exists>sel. region_selection elecs muons jets = Inr sel
     \<and> selections_all sel [''4j1b'']
         = selections_all sel [''exactly_1l'', ''atleast_4j'', ''exactly_1b'']
     \<and> selections_all sel [''4j2b'']
         = selections_all sel [''exactly_1l'', ''atleast_4j'', ''atleast_2b'']
     \<and> selections_all sel [''4j1b''] = Inr (mask_4j1b elecs muons jets)
     \<and> selections_all sel [''4j2b''] = Inr (mask_4j2b elecs muons jets)
     \<and> (\<forall>i<length jets.
           length (elecs ! i) + length (muons ! i) = 1
           \<and> map btagCSVV2 (jets ! i) = [0.9, 0.9, 0.1, 0.1]
           \<longrightarrow> mask_4j2b elecs muons jets ! i \<and> \<not> mask_4j1b elecs muons jets ! i)"
proof -
  have scen: "mask_4j2b elecs muons jets ! i \<and> \<not> mask_4j1b elecs muons jets ! i"
    if "i < length jets" "length (elecs ! i) + length (muons ! i) = 1"
      "map btagCSVV2 (jets ! i) = [0.9, 0.9, 0.1, 0.1]" for i
    using that assms tagged_scenario [of "jets ! i"]
    by (simp add: mask_4j1b_def mask_4j2b_def zip3_def exactly_1l_def)
  show ?thesis
    using region_selection_value [OF assms] registered_all [OF assms] scen
    by simp
qed

theorem region_masks_are_conjunctions_witness:
  "length [[]::electron list] = length [[demo_muon]]
   \<and> length [[demo_muon]] = length [[demo_jet 50 0.9, demo_jet 50 0.9, demo_jet 50 0.1, demo_jet 50 0.1]]
   \<and> (\<exists>sel. region_selection [[]] [[demo_muon]]
              [[demo_jet 50 0.9, demo_jet 50 0.9, demo_jet 50 0.1, demo_jet 50 0.1]] = Inr sel
        \<and> selections_all sel [''4j2b''] = Inr [True]
        \<and> selections_all sel [''4j1b''] = Inr [False])"
  using region_masks_are_conjunctions
    [of "[[]]" "[[demo_muon]]" "[[demo_jet 50 0.9, demo_jet 50 0.9, demo_jet 50 0.1, demo_jet 50 0.1]]"]
  by (auto simp: mask_4j1b_def mask_4j2b_def zip3_def exactly_1l_def atleast_4j_def
      exactly_1b_def atleast_2b_def btagged_def B_TAG_THRESHOLD_def demo_jet_def)

text \<open>
  Claim C8. The masks depend on the collections alone, and of them only on the
  per-event lepton count, jet count and b-tagged-jet count: two evaluations of the
  region selection on collections with the same counts, in particular two evaluations
  on the same collections, give the same boolean sequence under every name and every
  conjunction of names.
\<close>

theorem region_masks_deterministic:
  assumes "region_selection elecs muons jets = Inr sel"
    and "region_selection elecs' muons' jets' = Inr sel'"
    and "map2 (+) (ak_num elecs) (ak_num muons) = map2 (+) (ak_num elecs') (ak_num muons')"
    and "ak_num jets = ak_num jets'"
    and "btag_sum jets = btag_sum jets'"
  shows "selections_all sel names = selections_all sel' names"
proof -
  note len = region_selection_lengths [OF assms(1)]
  note len' = region_selection_lengths [OF assms(2)]
  have n: "length jets = length jets'"
    using assms(4) by (simp add: ak_num_def) (metis length_map)
  have a1: "atom_1l elecs muons = atom_1l elecs' muons'"
    using assms(3) by (simp add: atom_1l_def)
  have a2: "atom_4j jets = atom_4j jets'" "atom_1b jets = atom_1b jets'"
    "atom_2b jets = atom_2b jets'"
    using assms(4,5) by (simp_all add: atom_4j_def atom_1b_def atom_2b_def)
  have m1: "mask_4j1b elecs muons jets = mask_4j1b elecs' muons' jets'"
    using conj_4j1b [of elecs muons jets] conj_4j1b [of elecs' muons' jets'] len len' n a1 a2
    by simp
  have m2: "mask_4j2b elecs muons jets = mask_4j2b elecs' muons' jets'"
    using conj_4j2b [of elecs muons jets] conj_4j2b [of elecs' muons' jets'] len len' n a1 a2
    by simp
  have "sel = sel'"
    using region_selection_Inr [OF assms(1)] region_selection_Inr [OF assms(2)] a1 a2 m1 m2
    by (simp add: registered_def)
  then show ?thesis by simp
qed

theorem region_masks_deterministic_witness:
  "\<exists>sel sel'.
     region_selection [[]] [[demo_muon]] [[demo_jet 50 0.9, demo_jet 50 0.1, demo_jet 50 0.1, demo_jet 50 0.1]]
       = Inr sel
   \<and> region_selection [[]] [[demo_muon]] [[demo_jet 50 0.9, demo_jet 50 0.1, demo_jet 50 0.1, demo_jet 50 0.1]]
       = Inr sel'
   \<and> selections_all sel [''4j1b''] = selections_all sel' [''4j1b'']
   \<and> selections_all sel [''4j1b''] = Inr [True]"
proof -
  let ?j = "[[demo_jet 50 0.9, demo_jet 50 0.1, demo_jet 50 0.1, demo_jet 50 0.1]]"
  have run: "region_selection [[]] [[demo_muon]] ?j = Inr (registered [[]] [[demo_muon]] ?j)"
    by (rule region_selection_value) simp_all
  have val: "selections_all (registered [[]] [[demo_muon]] ?j) [''4j1b''] = Inr [True]"
    by (simp add: registered_all mask_4j1b_def zip3_def exactly_1l_def atleast_4j_def
        exactly_1b_def btagged_def B_TAG_THRESHOLD_def demo_jet_def)
  show ?thesis
    using region_masks_deterministic [OF run run refl refl refl, of "[''4j1b'']"] run val
    by simp
qed

text \<open>
  Claim C9. Whenever the region selection succeeds, the masks \<open>4j1b\<close> and \<open>4j2b\<close>
  exist, have one entry per event, and are never both true for an event; the same
  holds for the atomic masks \<open>exactly_1b\<close> and \<open>atleast_2b\<close>. So the jets that the
  mask of one region keeps never belong to an event that the other region keeps.
\<close>

theorem regions_never_overlap:
  assumes "region_selection elecs muons jets = Inr sel"
  shows "\<exists>a b c d.
       selections_all sel [''4j1b''] = Inr a \<and> selections_all sel [''4j2b''] = Inr b
     \<and> selections_all sel [''exactly_1b''] = Inr c \<and> selections_all sel [''atleast_2b''] = Inr d
     \<and> length a = length jets \<and> length b = length jets
     \<and> length c = length jets \<and> length d = length jets
     \<and> (\<forall>i<length jets. \<not> (a ! i \<and> b ! i) \<and> \<not> (c ! i \<and> d ! i))"
proof -
  note len = region_selection_lengths [OF assms]
  have sel: "sel = registered elecs muons jets"
    by (rule region_selection_Inr [OF assms])
  have rows: "selection_rows (registered elecs muons jets) = length jets"
    using len by (simp add: registered_def selection_rows_def atom_lengths)
  have c: "selections_all sel [''exactly_1b''] = Inr (atom_1b jets)"
    unfolding sel
    by (simp add: selections_all_def rows map_of_registered)
       (intro nth_equalityI, simp_all add: atom_lengths)
  have d: "selections_all sel [''atleast_2b''] = Inr (atom_2b jets)"
    unfolding sel
    by (simp add: selections_all_def rows map_of_registered)
       (intro nth_equalityI, simp_all add: atom_lengths)
  have excl: "\<not> (mask_4j1b elecs muons jets ! i \<and> mask_4j2b elecs muons jets ! i)
      \<and> \<not> (atom_1b jets ! i \<and> atom_2b jets ! i)" if "i < length jets" for i
    using that len
    by (simp add: mask_4j1b_def mask_4j2b_def zip3_def exactly_1b_def atleast_2b_def
        atom_1b_def atom_2b_def btag_sum_def)
  show ?thesis
    using registered_all(1,2) [of elecs muons jets] len c d excl
    by (simp add: sel mask_lengths atom_lengths)
qed

theorem regions_never_overlap_witness:
  "\<exists>sel. region_selection [[], []] [[demo_muon], [demo_muon]]
       [[demo_jet 50 0.9, demo_jet 50 0.9, demo_jet 50 0.1, demo_jet 50 0.1],
        [demo_jet 50 0.9, demo_jet 50 0.1, demo_jet 50 0.1, demo_jet 50 0.1]] = Inr sel
     \<and> selections_all sel [''4j1b''] = Inr [False, True]
     \<and> selections_all sel [''4j2b''] = Inr [True, False]"
proof -
  let ?j = "[[demo_jet 50 0.9, demo_jet 50 0.9, demo_jet 50 0.1, demo_jet 50 0.1],
        [demo_jet 50 0.9, demo_jet 50 0.1, demo_jet 50 0.1, demo_jet 50 0.1]]"
  have run: "region_selection [[], []] [[demo_muon], [demo_muon]] ?j
      = Inr (registered [[], []] [[demo_muon], [demo_muon]] ?j)"
    by (rule region_selection_value) simp_all
  have val: "selections_all (registered [[], []] [[demo_muon], [demo_muon]] ?j) [''4j1b'']
        = Inr [False, True]"
      "selections_all (registered [[], []] [[demo_muon], [demo_muon]] ?j) [''4j2b'']
        = Inr [True, False]"
    by (simp_all add: registered_all mask_4j1b_def mask_4j2b_def zip3_def exactly_1l_def
        atleast_4j_def exactly_1b_def atleast_2b_def btagged_def B_TAG_THRESHOLD_def demo_jet_def)
  show ?thesis
    using regions_never_overlap [OF run] run val by simp
qed

section \<open>Facts about combinations and the largest element\<close>

lemma in_combinations2:
  "(a, b) \<in> set (combinations2 xs) \<longleftrightarrow> (\<exists>i j. i < j \<and> j < length xs \<and> a = xs ! i \<and> b = xs ! j)"
proof (induction xs)
  case Nil
  then show ?case by simp
next
  case (Cons x xs)
  show ?case
  proof
    assume "(a, b) \<in> set (combinations2 (x # xs))"
    then consider "a = x" "b \<in> set xs" | "(a, b) \<in> set (combinations2 xs)"
      by auto
    then show "\<exists>i j. i < j \<and> j < length (x # xs) \<and> a = (x # xs) ! i \<and> b = (x # xs) ! j"
    proof cases
      case 1
      then obtain j where "j < length xs" "b = xs ! j"
        by (auto simp: in_set_conv_nth)
      with 1 have "0 < Suc j \<and> Suc j < length (x # xs) \<and> a = (x # xs) ! 0 \<and> b = (x # xs) ! Suc j"
        by simp
      then show ?thesis by blast
    next
      case 2
      with Cons.IH obtain i j where "i < j" "j < length xs" "a = xs ! i" "b = xs ! j"
        by auto
      then have "Suc i < Suc j \<and> Suc j < length (x # xs) \<and> a = (x # xs) ! Suc i
          \<and> b = (x # xs) ! Suc j"
        by simp
      then show ?thesis by blast
    qed
  next
    assume "\<exists>i j. i < j \<and> j < length (x # xs) \<and> a = (x # xs) ! i \<and> b = (x # xs) ! j"
    then obtain i j where ij: "i < j" "j < length (x # xs)" "a = (x # xs) ! i" "b = (x # xs) ! j"
      by blast
    from ij(1) obtain j' where j': "j = Suc j'"
      by (cases j) auto
    show "(a, b) \<in> set (combinations2 (x # xs))"
    proof (cases i)
      case 0
      with ij j' show ?thesis by auto
    next
      case (Suc i')
      with ij j' have "i' < j' \<and> j' < length xs \<and> a = xs ! i' \<and> b = xs ! j'"
        by simp
      with Cons.IH have "(a, b) \<in> set (combinations2 xs)"
        by blast
      then show ?thesis by simp
    qed
  qed
qed

lemma in_combinations3:
  "(a, b, c) \<in> set (combinations3 xs) \<longleftrightarrow>
     (\<exists>i j k. i < j \<and> j < k \<and> k < length xs \<and> a = xs ! i \<and> b = xs ! j \<and> c = xs ! k)"
proof (induction xs)
  case Nil
  then show ?case by simp
next
  case (Cons x xs)
  show ?case
  proof
    assume "(a, b, c) \<in> set (combinations3 (x # xs))"
    then consider "a = x" "(b, c) \<in> set (combinations2 xs)" | "(a, b, c) \<in> set (combinations3 xs)"
      by auto
    then show "\<exists>i j k. i < j \<and> j < k \<and> k < length (x # xs) \<and> a = (x # xs) ! i
        \<and> b = (x # xs) ! j \<and> c = (x # xs) ! k"
    proof cases
      case 1
      then obtain j k where "j < k" "k < length xs" "b = xs ! j" "c = xs ! k"
        by (auto simp: in_combinations2)
      with 1 have "0 < Suc j \<and> Suc j < Suc k \<and> Suc k < length (x # xs) \<and> a = (x # xs) ! 0
          \<and> b = (x # xs) ! Suc j \<and> c = (x # xs) ! Suc k"
        by simp
      then show ?thesis by blast
    next
      case 2
      with Cons.IH obtain i j k where
        "i < j" "j < k" "k < length xs" "a = xs ! i" "b = xs ! j" "c = xs ! k"
        by auto
      then have "Suc i < Suc j \<and> Suc j < Suc k \<and> Suc k < length (x # xs)
          \<and> a = (x # xs) ! Suc i \<and> b = (x # xs) ! Suc j \<and> c = (x # xs) ! Suc k"
        by simp
      then show ?thesis by blast
    qed
  next
    assume "\<exists>i j k. i < j \<and> j < k \<and> k < length (x # xs) \<and> a = (x # xs) ! i
        \<and> b = (x # xs) ! j \<and> c = (x # xs) ! k"
    then obtain i j k where ijk: "i < j" "j < k" "k < length (x # xs)"
      "a = (x # xs) ! i" "b = (x # xs) ! j" "c = (x # xs) ! k"
      by blast
    from ijk(1) obtain j' where j': "j = Suc j'"
      by (cases j) auto
    from ijk(2) obtain k' where k': "k = Suc k'"
      by (cases k) auto
    show "(a, b, c) \<in> set (combinations3 (x # xs))"
    proof (cases i)
      case 0
      have "(b, c) \<in> set (combinations2 xs)"
        unfolding in_combinations2 using ijk j' k' by auto
      with 0 ijk show ?thesis by auto
    next
      case (Suc i')
      with ijk j' k' have "i' < j' \<and> j' < k' \<and> k' < length xs \<and> a = xs ! i' \<and> b = xs ! j'
          \<and> c = xs ! k'"
        by simp
      with Cons.IH have "(a, b, c) \<in> set (combinations3 xs)"
        by blast
      then show ?thesis by simp
    qed
  qed
qed

lemma length_combinations2: "length (combinations2 xs) = length xs choose 2"
  by (induction xs) (simp_all add: numeral_2_eq_2)

lemma length_combinations3: "length (combinations3 xs) = length xs choose 3"
  by (induction xs) (simp_all add: length_combinations2 numeral_3_eq_3 numeral_2_eq_2)

lemma argmax_from_spec:
  "(argmax_from xs i best v = best \<and> (\<forall>x\<in>set xs. x \<le> v))
   \<or> (\<exists>r<length xs. argmax_from xs i best v = i + r \<and> v < xs ! r
        \<and> (\<forall>x\<in>set xs. x \<le> xs ! r) \<and> (\<forall>j<r. xs ! j < xs ! r))"
proof (induction xs arbitrary: i best v)
  case Nil
  then show ?case by simp
next
  case (Cons x xs)
  show ?case
  proof (cases "v < x")
    case True
    from Cons.IH [of "Suc i" i x] show ?thesis
    proof
      assume h: "argmax_from xs (Suc i) i x = i \<and> (\<forall>y\<in>set xs. y \<le> x)"
      with True have "0 < length (x # xs) \<and> argmax_from (x # xs) i best v = i + 0
          \<and> v < (x # xs) ! 0 \<and> (\<forall>y\<in>set (x # xs). y \<le> (x # xs) ! 0)
          \<and> (\<forall>j<0. (x # xs) ! j < (x # xs) ! 0)"
        by simp
      then show ?thesis by blast
    next
      assume "\<exists>r<length xs. argmax_from xs (Suc i) i x = Suc i + r \<and> x < xs ! r
          \<and> (\<forall>y\<in>set xs. y \<le> xs ! r) \<and> (\<forall>j<r. xs ! j < xs ! r)"
      then obtain r where r: "r < length xs" "argmax_from xs (Suc i) i x = Suc i + r"
        "x < xs ! r" "\<forall>y\<in>set xs. y \<le> xs ! r" "\<forall>j<r. xs ! j < xs ! r"
        by blast
      have "\<forall>j<Suc r. (x # xs) ! j < (x # xs) ! Suc r"
        using r(3,5) by (auto simp: less_Suc_eq_0_disj)
      with True r have "Suc r < length (x # xs) \<and> argmax_from (x # xs) i best v = i + Suc r
          \<and> v < (x # xs) ! Suc r \<and> (\<forall>y\<in>set (x # xs). y \<le> (x # xs) ! Suc r)
          \<and> (\<forall>j<Suc r. (x # xs) ! j < (x # xs) ! Suc r)"
        by auto
      then show ?thesis by blast
    qed
  next
    case False
    from Cons.IH [of "Suc i" best v] show ?thesis
    proof
      assume "argmax_from xs (Suc i) best v = best \<and> (\<forall>y\<in>set xs. y \<le> v)"
      with False show ?thesis by auto
    next
      assume "\<exists>r<length xs. argmax_from xs (Suc i) best v = Suc i + r \<and> v < xs ! r
          \<and> (\<forall>y\<in>set xs. y \<le> xs ! r) \<and> (\<forall>j<r. xs ! j < xs ! r)"
      then obtain r where r: "r < length xs" "argmax_from xs (Suc i) best v = Suc i + r"
        "v < xs ! r" "\<forall>y\<in>set xs. y \<le> xs ! r" "\<forall>j<r. xs ! j < xs ! r"
        by blast
      have "\<forall>j<Suc r. (x # xs) ! j < (x # xs) ! Suc r"
        using r(3,5) False by (auto simp: less_Suc_eq_0_disj)
      with False r have "Suc r < length (x # xs) \<and> argmax_from (x # xs) i best v = i + Suc r
          \<and> v < (x # xs) ! Suc r \<and> (\<forall>y\<in>set (x # xs). y \<le> (x # xs) ! Suc r)
          \<and> (\<forall>j<Suc r. (x # xs) ! j < (x # xs) ! Suc r)"
        by auto
      then show ?thesis by blast
    qed
  qed
qed

lemma ak_argmax_None: "ak_argmax xs = None \<longleftrightarrow> xs = []"
  by (cases xs) (simp_all add: ak_argmax_def)

lemma ak_argmax_Some:
  assumes "xs \<noteq> []"
  shows "\<exists>r<length xs. ak_argmax xs = Some r \<and> (\<forall>x\<in>set xs. x \<le> xs ! r)
     \<and> (\<forall>j<r. xs ! j < xs ! r)"
proof -
  from assms obtain x rest where xs: "xs = x # rest"
    by (cases xs) auto
  from argmax_from_spec [of rest 1 0 x] show ?thesis
  proof
    assume "argmax_from rest 1 0 x = 0 \<and> (\<forall>y\<in>set rest. y \<le> x)"
    then have "0 < length xs \<and> ak_argmax xs = Some 0 \<and> (\<forall>y\<in>set xs. y \<le> xs ! 0)
        \<and> (\<forall>j<0. xs ! j < xs ! 0)"
      by (simp add: xs ak_argmax_def)
    then show ?thesis by blast
  next
    assume "\<exists>r<length rest. argmax_from rest 1 0 x = 1 + r \<and> x < rest ! r
        \<and> (\<forall>y\<in>set rest. y \<le> rest ! r) \<and> (\<forall>j<r. rest ! j < rest ! r)"
    then obtain r where r: "r < length rest" "argmax_from rest 1 0 x = 1 + r" "x < rest ! r"
      "\<forall>y\<in>set rest. y \<le> rest ! r" "\<forall>j<r. rest ! j < rest ! r"
      by blast
    have "\<forall>j<Suc r. xs ! j < xs ! Suc r"
      using r(3,5) by (auto simp: xs less_Suc_eq_0_disj)
    with r have "Suc r < length xs \<and> ak_argmax xs = Some (Suc r)
        \<and> (\<forall>y\<in>set xs. y \<le> xs ! Suc r) \<and> (\<forall>j<Suc r. xs ! j < xs ! Suc r)"
      by (auto simp: xs ak_argmax_def)
    then show ?thesis by blast
  qed
qed

section \<open>Facts about the trijet mass\<close>

lemma calculate_m_reco_top_map:
  "calculate_m_reco_top ops jets = map (trijet_mass_entry ops) jets"
  by (induction jets) (simp_all add: calculate_m_reco_top_def trijet_mass_entry_def Let_def)

lemma trijet_mass_entry_None:
  "trijet_mass_entry ops js = None \<longleftrightarrow> trijet_candidates ops js = []"
  by (simp add: trijet_mass_entry_def Let_def ak_argmax_None)

lemma trijet_mass_entry_Some:
  assumes "trijet_candidates ops js \<noteq> []"
  shows "\<exists>t\<in>set (trijet_candidates ops js).
           trijet_mass_entry ops js = Some (vec_mass ops (p4 t))
         \<and> (\<forall>t'\<in>set (trijet_candidates ops js). vec_pt ops (p4 t') \<le> vec_pt ops (p4 t))"
proof -
  let ?ts = "trijet_candidates ops js"
  let ?pts = "map (\<lambda>t. vec_pt ops (p4 t)) ?ts"
  from assms have "?pts \<noteq> []" by simp
  from ak_argmax_Some [OF this] obtain r where r: "r < length ?pts" "ak_argmax ?pts = Some r"
    "\<forall>x\<in>set ?pts. x \<le> ?pts ! r"
    by blast
  from r(1) have mem: "?ts ! r \<in> set ?ts" by simp
  have "trijet_mass_entry ops js = Some (vec_mass ops (p4 (?ts ! r)))"
    using r(2) by (simp add: trijet_mass_entry_def Let_def)
  moreover have "\<forall>t'\<in>set ?ts. vec_pt ops (p4 t') \<le> vec_pt ops (p4 (?ts ! r))"
    using r(1,3) by simp
  ultimately show ?thesis using mem by blast
qed

lemma in_trijet_candidates:
  "t \<in> set (trijet_candidates ops js) \<longleftrightarrow>
     (\<exists>i j k. i < j \<and> j < k \<and> k < length js
        \<and> t = \<lparr>j1 = js ! i, j2 = js ! j, j3 = js ! k,
               p4 = vec_add ops (vec_add ops (vec_of_jet ops (js ! i)) (vec_of_jet ops (js ! j)))
                      (vec_of_jet ops (js ! k)),
               max_btag = max (btagCSVV2 (js ! i)) (max (btagCSVV2 (js ! j)) (btagCSVV2 (js ! k)))\<rparr>
        \<and> 0.5 < max (btagCSVV2 (js ! i)) (max (btagCSVV2 (js ! j)) (btagCSVV2 (js ! k))))"
proof
  assume "t \<in> set (trijet_candidates ops js)"
  then obtain a b c where abc: "(a, b, c) \<in> set (combinations3 js)"
    "t = make_trijet ops (a, b, c)" "B_TAG_THRESHOLD < max_btag t"
    by (auto simp: trijet_candidates_def)
  from abc(1) obtain i j k where "i < j" "j < k" "k < length js"
    "a = js ! i" "b = js ! j" "c = js ! k"
    unfolding in_combinations3 by blast
  with abc(2,3) show "\<exists>i j k. i < j \<and> j < k \<and> k < length js
        \<and> t = \<lparr>j1 = js ! i, j2 = js ! j, j3 = js ! k,
               p4 = vec_add ops (vec_add ops (vec_of_jet ops (js ! i)) (vec_of_jet ops (js ! j)))
                      (vec_of_jet ops (js ! k)),
               max_btag = max (btagCSVV2 (js ! i)) (max (btagCSVV2 (js ! j)) (btagCSVV2 (js ! k)))\<rparr>
        \<and> 0.5 < max (btagCSVV2 (js ! i)) (max (btagCSVV2 (js ! j)) (btagCSVV2 (js ! k)))"
    by (auto simp: make_trijet_def B_TAG_THRESHOLD_def)
next
  assume "\<exists>i j k. i < j \<and> j < k \<and> k < length js
        \<and> t = \<lparr>j1 = js ! i, j2 = js ! j, j3 = js ! k,
               p4 = vec_add ops (vec_add ops (vec_of_jet ops (js ! i)) (vec_of_jet ops (js ! j)))
                      (vec_of_jet ops (js ! k)),
               max_btag = max (btagCSVV2 (js ! i)) (max (btagCSVV2 (js ! j)) (btagCSVV2 (js ! k)))\<rparr>
        \<and> 0.5 < max (btagCSVV2 (js ! i)) (max (btagCSVV2 (js ! j)) (btagCSVV2 (js ! k)))"
  then obtain i j k where ijk: "i < j" "j < k" "k < length js"
    and t: "t = make_trijet ops (js ! i, js ! j, js ! k)"
    and b: "B_TAG_THRESHOLD < max_btag t"
    by (auto simp: make_trijet_def B_TAG_THRESHOLD_def)
  from ijk have "(js ! i, js ! j, js ! k) \<in> set (combinations3 js)"
    unfolding in_combinations3 by blast
  with t b show "t \<in> set (trijet_candidates ops js)"
    by (auto simp: trijet_candidates_def)
qed

lemma short_event_no_candidates:
  assumes "length js < 3"
  shows "trijet_candidates ops js = []"
proof -
  have "length (combinations3 js) = 0"
    using assms by (simp add: length_combinations3)
  then show ?thesis
    by (simp add: trijet_candidates_def)
qed

lemma claimed_m_reco_top_filter:
  "claimed_m_reco_top ops jets = map the (filter (\<lambda>v. v \<noteq> None) (calculate_m_reco_top ops jets))"
  unfolding calculate_m_reco_top_map claimed_m_reco_top_def
  by (induction jets) (auto split: option.splits)

lemma tagged_triple_survives:
  assumes "3 \<le> length js" and "\<exists>j\<in>set js. btagged j"
  shows "trijet_candidates ops js \<noteq> []"
proof -
  from assms(2) obtain n where n: "n < length js" "btagged (js ! n)"
    by (auto simp: in_set_conv_nth)
  have "\<exists>i j k. i < j \<and> j < k \<and> k < length js \<and> n \<in> {i, j, k}"
  proof (cases "n \<le> 2")
    case True
    with assms(1) have "(0::nat) < 1 \<and> (1::nat) < 2 \<and> 2 < length js \<and> n \<in> {0, 1, 2}"
      by auto
    then show ?thesis by blast
  next
    case False
    with n have "(0::nat) < 1 \<and> 1 < n \<and> n < length js \<and> n \<in> {0, 1, n}"
      by auto
    then show ?thesis by blast
  qed
  then obtain i j k where ijk: "i < j" "j < k" "k < length js" "n \<in> {i, j, k}"
    by blast
  have "0.5 < max (btagCSVV2 (js ! i)) (max (btagCSVV2 (js ! j)) (btagCSVV2 (js ! k)))"
    using n(2) ijk(4) by (auto simp: btagged_def B_TAG_THRESHOLD_def max_def)
  with ijk have "\<exists>t. t \<in> set (trijet_candidates ops js)"
    unfolding in_trijet_candidates by blast
  then show ?thesis by auto
qed

section \<open>Claims about the observables and the normalisation\<close>

text \<open>
  Claim C2, as amended. For each event the calculator forms every triple of jets at
  positions \<open>i < j < k\<close> (there are \<open>n choose 3\<close> of them), with the sum of the three
  four-momenta and the largest of the three b-tag scores, keeps the triples whose
  largest score is above 0.5, and gives the invariant mass of a kept triple whose
  combined transverse momentum is largest. The result has exactly one entry per event:
  an event without a kept triple, in particular an event with fewer than three jets,
  has the missing value \<open>None\<close> as its entry, never a number. Dropping the missing
  entries gives the sequence that has no entry for such events.
\<close>

theorem trijet_mass_one_entry_per_event:
  "length (calculate_m_reco_top ops jets) = length jets
   \<and> (\<forall>js::jet list. length (combinations3 js) = length js choose 3)
   \<and> (\<forall>js t. t \<in> set (trijet_candidates ops js) \<longleftrightarrow>
        (\<exists>i j k. i < j \<and> j < k \<and> k < length js
           \<and> t = \<lparr>j1 = js ! i, j2 = js ! j, j3 = js ! k,
                  p4 = vec_add ops (vec_add ops (vec_of_jet ops (js ! i)) (vec_of_jet ops (js ! j)))
                         (vec_of_jet ops (js ! k)),
                  max_btag = max (btagCSVV2 (js ! i))
                               (max (btagCSVV2 (js ! j)) (btagCSVV2 (js ! k)))\<rparr>
           \<and> 0.5 < max (btagCSVV2 (js ! i)) (max (btagCSVV2 (js ! j)) (btagCSVV2 (js ! k)))))
   \<and> (\<forall>e<length jets.
        (trijet_candidates ops (jets ! e) = [] \<longrightarrow> calculate_m_reco_top ops jets ! e = None)
        \<and> (length (jets ! e) < 3 \<longrightarrow> calculate_m_reco_top ops jets ! e = None)
        \<and> (trijet_candidates ops (jets ! e) \<noteq> [] \<longrightarrow>
             (\<exists>t\<in>set (trijet_candidates ops (jets ! e)).
                calculate_m_reco_top ops jets ! e = Some (vec_mass ops (p4 t))
                \<and> (\<forall>t'\<in>set (trijet_candidates ops (jets ! e)).
                      vec_pt ops (p4 t') \<le> vec_pt ops (p4 t)))))
   \<and> map the (filter (\<lambda>v. v \<noteq> None) (calculate_m_reco_top ops jets))
       = claimed_m_reco_top ops jets"
proof -
  have len: "length (calculate_m_reco_top ops jets) = length jets"
    by (simp add: calculate_m_reco_top_map)
  have entry: "calculate_m_reco_top ops jets ! e = trijet_mass_entry ops (jets ! e)"
    if "e < length jets" for e
    using that by (simp add: calculate_m_reco_top_map)
  have none: "calculate_m_reco_top ops jets ! e = None"
    if "e < length jets" "trijet_candidates ops (jets ! e) = []" for e
    using that by (simp add: entry trijet_mass_entry_None)
  have short: "calculate_m_reco_top ops jets ! e = None"
    if "e < length jets" "length (jets ! e) < 3" for e
    using that none short_event_no_candidates by blast
  have some: "\<exists>t\<in>set (trijet_candidates ops (jets ! e)).
                calculate_m_reco_top ops jets ! e = Some (vec_mass ops (p4 t))
                \<and> (\<forall>t'\<in>set (trijet_candidates ops (jets ! e)).
                      vec_pt ops (p4 t') \<le> vec_pt ops (p4 t))"
    if "e < length jets" "trijet_candidates ops (jets ! e) \<noteq> []" for e
    using that entry trijet_mass_entry_Some [of ops "jets ! e"] by simp
  have events: "\<forall>e<length jets.
        (trijet_candidates ops (jets ! e) = [] \<longrightarrow> calculate_m_reco_top ops jets ! e = None)
        \<and> (length (jets ! e) < 3 \<longrightarrow> calculate_m_reco_top ops jets ! e = None)
        \<and> (trijet_candidates ops (jets ! e) \<noteq> [] \<longrightarrow>
             (\<exists>t\<in>set (trijet_candidates ops (jets ! e)).
                calculate_m_reco_top ops jets ! e = Some (vec_mass ops (p4 t))
                \<and> (\<forall>t'\<in>set (trijet_candidates ops (jets ! e)).
                      vec_pt ops (p4 t') \<le> vec_pt ops (p4 t))))"
    using none short some by blast
  have combos: "\<forall>js::jet list. length (combinations3 js) = length js choose 3"
    by (simp add: length_combinations3)
  have cands: "\<forall>js t. t \<in> set (trijet_candidates ops js) \<longleftrightarrow>
        (\<exists>i j k. i < j \<and> j < k \<and> k < length js
           \<and> t = \<lparr>j1 = js ! i, j2 = js ! j, j3 = js ! k,
                  p4 = vec_add ops (vec_add ops (vec_of_jet ops (js ! i)) (vec_of_jet ops (js ! j)))
                         (vec_of_jet ops (js ! k)),
                  max_btag = max (btagCSVV2 (js ! i))
                               (max (btagCSVV2 (js ! j)) (btagCSVV2 (js ! k)))\<rparr>
           \<and> 0.5 < max (btagCSVV2 (js ! i)) (max (btagCSVV2 (js ! j)) (btagCSVV2 (js ! k))))"
    by (intro allI) (rule in_trijet_candidates)
  have dropped: "map the (filter (\<lambda>v. v \<noteq> None) (calculate_m_reco_top ops jets))
       = claimed_m_reco_top ops jets"
    by (simp add: claimed_m_reco_top_filter)
  show ?thesis
    by (intro conjI) (rule len combos cands events dropped)+
qed

theorem trijet_mass_one_entry_per_event_witness:
  "(1::nat) < length [[demo_jet 40 0.9, demo_jet 50 0.1, demo_jet 60 0.1, demo_jet 70 0.1], []]
   \<and> trijet_candidates cartesian_ops [] = []
   \<and> trijet_candidates cartesian_ops
       [demo_jet 40 0.9, demo_jet 50 0.1, demo_jet 60 0.1, demo_jet 70 0.1] \<noteq> []
   \<and> calculate_m_reco_top cartesian_ops
       [[demo_jet 40 0.9, demo_jet 50 0.1, demo_jet 60 0.1, demo_jet 70 0.1], []] ! 1 = None
   \<and> (\<exists>t\<in>set (trijet_candidates cartesian_ops
                 [demo_jet 40 0.9, demo_jet 50 0.1, demo_jet 60 0.1, demo_jet 70 0.1]).
         calculate_m_reco_top cartesian_ops
           [[demo_jet 40 0.9, demo_jet 50 0.1, demo_jet 60 0.1, demo_jet 70 0.1], []] ! 0
           = Some (vec_mass cartesian_ops (p4 t)))"
proof -
  let ?J = "[demo_jet 40 0.9, demo_jet 50 0.1, demo_jet 60 0.1, demo_jet 70 0.1]"
  have c0: "trijet_candidates cartesian_ops [] = []"
    by (simp add: trijet_candidates_def)
  have c1: "trijet_candidates cartesian_ops ?J \<noteq> []"
    by (simp add: trijet_candidates_def make_trijet_def demo_jet_def B_TAG_THRESHOLD_def)
  from trijet_mass_one_entry_per_event [of cartesian_ops "[?J, []]"]
  have "\<forall>e<length [?J, []].
        (trijet_candidates cartesian_ops ([?J, []] ! e) = []
           \<longrightarrow> calculate_m_reco_top cartesian_ops [?J, []] ! e = None)
        \<and> (length ([?J, []] ! e) < 3 \<longrightarrow> calculate_m_reco_top cartesian_ops [?J, []] ! e = None)
        \<and> (trijet_candidates cartesian_ops ([?J, []] ! e) \<noteq> [] \<longrightarrow>
             (\<exists>t\<in>set (trijet_candidates cartesian_ops ([?J, []] ! e)).
                calculate_m_reco_top cartesian_ops [?J, []] ! e
                  = Some (vec_mass cartesian_ops (p4 t))
                \<and> (\<forall>t'\<in>set (trijet_candidates cartesian_ops ([?J, []] ! e)).
                      vec_pt cartesian_ops (p4 t') \<le> vec_pt cartesian_ops (p4 t))))"
    by blast
  from this [rule_format, of 0] this [rule_format, of 1] c0 c1
  show ?thesis by auto
qed

theorem empty_event_has_entry_counterexample:
  "calculate_m_reco_top cartesian_ops [[demo_jet 50 0.9, demo_jet 50 0.9]] = [None]
   \<and> claimed_m_reco_top cartesian_ops [[demo_jet 50 0.9, demo_jet 50 0.9]] = []
   \<and> length (calculate_m_reco_top cartesian_ops [[demo_jet 50 0.9, demo_jet 50 0.9]])
       \<noteq> length (claimed_m_reco_top cartesian_ops [[demo_jet 50 0.9, demo_jet 50 0.9]])"
  by (simp add: calculate_m_reco_top_def claimed_m_reco_top_def trijet_mass_entry_def
      trijet_candidates_def ak_argmax_def)

text \<open>
  Claim C6. The normalisation weight of a simulated process (any process other than
  \<open>data\<close>) with a non-zero number of generated events is the cross section times 3378
  divided by that number; for data it is 1. With cross section 800 and 1,000,000
  generated events it is 2.7024.
\<close>

theorem xsec_weight_value:
  "(md_process md \<noteq> ''data'' \<and> md_nevts md \<noteq> 0
      \<longrightarrow> xsec_weight md = Inr (md_xsec md * 3378 / md_nevts md))
   \<and> (md_process md = ''data'' \<longrightarrow> xsec_weight md = Inr 1)
   \<and> (md_process md \<noteq> ''data'' \<and> md_xsec md = 800 \<and> md_nevts md = 1000000
      \<longrightarrow> xsec_weight md = Inr 2.7024)"
  by (simp add: xsec_weight_def lumi_def)

theorem xsec_weight_value_witness:
  "md_process (demo_metadata ''ttbar'' ''nominal'') \<noteq> ''data''
   \<and> md_nevts (demo_metadata ''ttbar'' ''nominal'') \<noteq> 0
   \<and> md_xsec (demo_metadata ''ttbar'' ''nominal'') = 800
   \<and> md_nevts (demo_metadata ''ttbar'' ''nominal'') = 1000000
   \<and> xsec_weight (demo_metadata ''ttbar'' ''nominal'') = Inr 2.7024
   \<and> md_process (demo_metadata ''data'' ''nominal'') = ''data''
   \<and> xsec_weight (demo_metadata ''data'' ''nominal'') = Inr 1"
  using xsec_weight_value [of "demo_metadata ''ttbar'' ''nominal''"]
    xsec_weight_value [of "demo_metadata ''data'' ''nominal''"]
  by (simp add: demo_metadata_def)

section \<open>Facts about the heap and one pass of the variation loop\<close>

lemma emap_length: "emap f xs = Inr ys \<Longrightarrow> length ys = length xs"
  by (induction xs arbitrary: ys) (auto simp: ebind_eq_Inr)

lemma emap_Inr_iff:
  "emap f xs = Inr ys \<longleftrightarrow> length ys = length xs \<and> (\<forall>i<length xs. f (xs ! i) = Inr (ys ! i))"
proof (induction xs arbitrary: ys)
  case Nil
  then show ?case by auto
next
  case (Cons x xs)
  show ?case
  proof (cases ys)
    case Nil
    then show ?thesis by (auto simp: ebind_eq_Inr)
  next
    case (Cons y ys')
    then show ?thesis
      using Cons.IH [of ys'] by (auto simp: ebind_eq_Inr less_Suc_eq_0_disj)
  qed
qed

lemma get_events_Inr:
  "get_events h a = Inr evs \<longleftrightarrow> a < length h \<and> h ! a = EventsArray evs"
  by (simp add: get_events_def split: pyobj.splits)

lemma get_jets_Inr:
  "get_jets h a = Inr js \<longleftrightarrow> a < length h \<and> h ! a = JetArray js"
  by (simp add: get_jets_def split: pyobj.splits)

lemma get_jets_new: "get_jets (h @ [JetArray js]) (length h) = Inr js"
  by (simp add: get_jets_def)

lemma load_objects_eq:
  assumes "get_events (heap st) ev = Inr evs"
  shows "load_objects ev syst_var st =
     ebind (pass_jets evs syst_var) (\<lambda>js.
       Inr (map Electron evs, map Muon evs, length (heap st),
            st\<lparr>heap := heap st @ [JetArray js]\<rparr>))"
proof -
  from assms have ev: "ev < length (heap st)" "heap st ! ev = EventsArray evs"
    by (simp_all add: get_events_Inr)
  have ge: "get_events (heap st @ [JetArray (map Jet evs)]) ev = Inr evs"
    using ev by (simp add: get_events_Inr nth_append)
  have gj: "get_jets (heap st @ [JetArray (map Jet evs)]) (length (heap st)) = Inr (map Jet evs)"
    by (simp add: get_jets_Inr)
  show ?thesis
  proof (cases "syst_var \<in> set jet_kinematic_systs")
    case False
    then show ?thesis
      using assms by (simp add: load_objects_def new_object_def pass_jets_def)
  next
    case True
    show ?thesis
    proof (cases "getitem_field evs syst_var")
      case (Inl e)
      then show ?thesis
        using assms True ge gj by (simp add: load_objects_def new_object_def pass_jets_def)
    next
      case (Inr shifts)
      then show ?thesis
        using assms True ge gj
        by (cases "ak_mul (map (map jet_pt) (map Jet evs)) shifts")
           (simp_all add: load_objects_def new_object_def pass_jets_def)
    qed
  qed
qed

lemma ak_mul_length: "ak_mul pts shifts = Inr r \<Longrightarrow> length r = length pts"
  by (auto simp: ak_mul_def split: if_splits dest: emap_length)

lemma pass_jets_length:
  assumes "pass_jets evs syst_var = Inr js"
  shows "length js = length evs"
  using assms
  by (auto simp: pass_jets_def ebind_eq_Inr with_pt_def split: if_splits dest: ak_mul_length)

lemma select_pass_eq:
  assumes "get_events (heap st) ev = Inr evs"
  shows "select_pass ev syst_var st =
     ebind (pass_jets evs syst_var) (\<lambda>js.
       case object_selection (map Electron evs) (map Muon evs) js of (elecs, muons, jets) \<Rightarrow>
       ebind (region_selection elecs muons jets) (\<lambda>selections.
         Inr (elecs, muons, jets, selections, st\<lparr>heap := heap st @ [JetArray js]\<rparr>)))"
  unfolding select_pass_def load_objects_eq [OF assms]
  by (cases "pass_jets evs syst_var") (simp_all add: get_jets_new)

lemma select_pass_Inr:
  assumes "get_events (heap st) ev = Inr evs"
    and "select_pass ev syst_var st = Inr (elecs, muons, jets, selections, st1)"
  shows "\<exists>js. pass_jets evs syst_var = Inr js
       \<and> (elecs, muons, jets) = object_selection (map Electron evs) (map Muon evs) js
       \<and> selections = registered elecs muons jets
       \<and> length elecs = length evs \<and> length muons = length evs \<and> length jets = length evs
       \<and> st1 = st\<lparr>heap := heap st @ [JetArray js]\<rparr>"
proof -
  from assms(2) [unfolded select_pass_eq [OF assms(1)]]
  obtain js where js: "pass_jets evs syst_var = Inr js"
    and rest: "(case object_selection (map Electron evs) (map Muon evs) js of
        (elecs, muons, jets) \<Rightarrow>
          ebind (region_selection elecs muons jets) (\<lambda>selections.
            Inr (elecs, muons, jets, selections, st\<lparr>heap := heap st @ [JetArray js]\<rparr>)))
        = Inr (elecs, muons, jets, selections, st1)"
    by (auto simp: ebind_eq_Inr)
  from rest have os: "(elecs, muons, jets) = object_selection (map Electron evs) (map Muon evs) js"
    and rs: "region_selection elecs muons jets = Inr selections"
    and st1: "st1 = st\<lparr>heap := heap st @ [JetArray js]\<rparr>"
    by (auto simp: object_selection_def ebind_eq_Inr)
  from os pass_jets_length [OF js]
  have len: "length elecs = length evs" "length muons = length evs" "length jets = length evs"
    by (simp_all add: object_selection_def)
  from js os rs st1 len region_selection_Inr [OF rs] show ?thesis
    by blast
qed

lemma select_pass_succeeds:
  assumes "get_events (heap st) ev = Inr evs" and "pass_jets evs syst_var = Inr js"
  shows "\<exists>elecs muons jets.
       select_pass ev syst_var st
         = Inr (elecs, muons, jets, registered elecs muons jets, st\<lparr>heap := heap st @ [JetArray js]\<rparr>)
     \<and> (elecs, muons, jets) = object_selection (map Electron evs) (map Muon evs) js
     \<and> length elecs = length evs \<and> length muons = length evs \<and> length jets = length evs"
proof -
  obtain elecs muons jets where
    os: "object_selection (map Electron evs) (map Muon evs) js = (elecs, muons, jets)"
    by (cases "object_selection (map Electron evs) (map Muon evs) js") auto
  from os pass_jets_length [OF assms(2)]
  have len: "length elecs = length evs" "length muons = length evs" "length jets = length evs"
    by (auto simp: object_selection_def)
  then have rs: "region_selection elecs muons jets = Inr (registered elecs muons jets)"
    by (intro region_selection_value) simp_all
  show ?thesis
    using os len rs assms(2) by (simp add: select_pass_eq [OF assms(1)])
qed

section \<open>Facts about the fills of one region\<close>

lemma pt_column_Inr:
  "pt_column rj i = Inr col \<longleftrightarrow>
     (\<forall>js\<in>set rj. i < length js) \<and> col = map (\<lambda>js. jet_pt (js ! i)) rj"
proof (induction rj arbitrary: col)
  case Nil
  then show ?case by (auto simp: pt_column_def)
next
  case (Cons js rj)
  from Cons.IH show ?case
    by (auto simp: pt_column_def ebind_eq_Inr)
qed

lemma btag_var_names:
  "map (\<lambda>i. ''btag_var_'' @ str_nat i) [0..<4]
     = [''btag_var_0'', ''btag_var_1'', ''btag_var_2'', ''btag_var_3'']"
  by code_simp

lemma event_systs_eq:
  "event_systs p =
     [''btag_var_0'', ''btag_var_1'', ''btag_var_2'', ''btag_var_3'']
     @ (if p = ''wjets'' then [''scale_var''] else [])"
  by (simp only: event_systs_def btag_var_names)

lemma str_nat_digits:
  "str_nat 0 = ''0''" "str_nat 1 = ''1''" "str_nat 2 = ''2''" "str_nat 3 = ''3''"
  "str_nat (Suc 0) = ''1''"
  by code_simp+

lemma weight_input_eq:
  "weight_input ''scale_var'' rj = ebind (pt_column rj 0) (\<lambda>col. Inr (''scale_var'', col))"
  "weight_input ''btag_var_0'' rj = ebind (pt_column rj 0) (\<lambda>col. Inr (''btag_var'', col))"
  "weight_input ''btag_var_1'' rj = ebind (pt_column rj 1) (\<lambda>col. Inr (''btag_var'', col))"
  "weight_input ''btag_var_2'' rj = ebind (pt_column rj 2) (\<lambda>col. Inr (''btag_var'', col))"
  "weight_input ''btag_var_3'' rj = ebind (pt_column rj 3) (\<lambda>col. Inr (''btag_var'', col))"
  by (simp_all add: weight_input_def startswith_def rsplit_last_def int_of_str_def is_digit_def)

lemma weights_mul_Inr:
  "weights_mul (map (\<lambda>n. 1 * w) ns) cs = Inr ws \<longleftrightarrow>
     length cs = length ns \<and> ws = map (\<lambda>c. w * c) cs"
proof -
  have "map2 (*) (map (\<lambda>n. 1 * w) ns) cs = map (\<lambda>c. w * c) cs" if "length cs = length ns"
    using that by (intro nth_equalityI) simp_all
  then show ?thesis
    by (auto simp: weights_mul_def)
qed

lemma fill_direction_Inr:
  assumes "fill_direction sv md syst_var region rj (map (\<lambda>n. 1 * w) (ak_num rj)) obs st direction
             = Inr st'"
  shows "\<exists>family input correction.
       weight_input syst_var rj = Inr (family, input)
     \<and> evaluate sv family direction input = Inr correction
     \<and> length correction = length rj
     \<and> heap st' = heap st
     \<and> queries st' = queries st @ [weight_query family direction input]
     \<and> fills st' = fills st @ [weighted_fill md w syst_var region obs direction correction]"
proof -
  from assms obtain family input where wi: "weight_input syst_var rj = Inr (family, input)"
    by (cases "weight_input syst_var rj") (auto simp: fill_direction_def)
  from assms wi obtain correction where ev: "evaluate sv family direction input = Inr correction"
    by (cases "evaluate sv family direction input")
       (auto simp: fill_direction_def cset_evaluate_def)
  from assms wi ev obtain ws where
    wm: "weights_mul (map (\<lambda>n. 1 * w) (ak_num rj)) correction = Inr ws"
    by (cases "weights_mul (map (\<lambda>n. 1 * w) (ak_num rj)) correction")
       (auto simp: fill_direction_def cset_evaluate_def)
  from wm [unfolded weights_mul_Inr]
  have len: "length correction = length rj" and ws: "ws = map (\<lambda>c. w * c) correction"
    by (simp_all add: ak_num_def)
  from assms wi ev wm ws
  have "heap st' = heap st
     \<and> queries st' = queries st @ [weight_query family direction input]
     \<and> fills st' = fills st @ [weighted_fill md w syst_var region obs direction correction]"
    by (auto simp: fill_direction_def cset_evaluate_def hist_fill_def weight_query_def
        weighted_fill_def)
  with wi ev len show ?thesis by blast
qed

lemma fill_region_Inr:
  assumes "fill_region ops sv md w syst_var selections jets st region = Inr st'"
  shows "\<exists>selection rj obs.
       selections_all selections [region] = Inr selection
     \<and> apply_mask jets selection = Inr rj
     \<and> observable_of ops region rj = Inr obs
     \<and> heap st' = heap st
     \<and> (if syst_var \<in> set (event_systs (md_process md))
        then \<exists>family input up down.
               weight_input syst_var rj = Inr (family, input)
             \<and> evaluate sv family ''up'' input = Inr up
             \<and> evaluate sv family ''down'' input = Inr down
             \<and> length up = length rj \<and> length down = length rj
             \<and> queries st' = queries st
                 @ [weight_query family ''up'' input, weight_query family ''down'' input]
             \<and> fills st' = fills st
                 @ [weighted_fill md w syst_var region obs ''up'' up,
                    weighted_fill md w syst_var region obs ''down'' down]
        else queries st' = queries st
             \<and> fills st' = fills st @ [plain_fill md w syst_var region obs (length rj)])"
proof -
  from assms obtain selection where sa: "selections_all selections [region] = Inr selection"
    by (cases "selections_all selections [region]") (auto simp: fill_region_def)
  from assms sa obtain rj where am: "apply_mask jets selection = Inr rj"
    by (cases "apply_mask jets selection") (auto simp: fill_region_def)
  from assms sa am obtain obs where ob: "observable_of ops region rj = Inr obs"
    by (cases "observable_of ops region rj") (auto simp: fill_region_def)
  show ?thesis
  proof (cases "syst_var \<in> set (event_systs (md_process md))")
    case False
    with assms sa am ob
    have "heap st' = heap st \<and> queries st' = queries st
        \<and> fills st' = fills st @ [plain_fill md w syst_var region obs (length rj)]"
      by (auto simp: fill_region_def Let_def hist_fill_def plain_fill_def ak_num_def
          map_replicate_const)
    with False sa am ob show ?thesis by auto
  next
    case True
    let ?step = "fill_direction sv md syst_var region rj (map (\<lambda>n. 1 * w) (ak_num rj)) obs"
    from assms sa am ob True have run: "efold ?step st [''up'', ''down''] = Inr st'"
      by (simp add: fill_region_def Let_def)
    then obtain st1 where up: "?step st ''up'' = Inr st1" and down: "?step st1 ''down'' = Inr st'"
      by (auto simp: ebind_eq_Inr)
    from fill_direction_Inr [OF up] obtain family input up_w where
      u: "weight_input syst_var rj = Inr (family, input)"
        "evaluate sv family ''up'' input = Inr up_w" "length up_w = length rj"
        "heap st1 = heap st" "queries st1 = queries st @ [weight_query family ''up'' input]"
        "fills st1 = fills st @ [weighted_fill md w syst_var region obs ''up'' up_w]"
      by blast
    from fill_direction_Inr [OF down] u(1) obtain down_w where
      d: "evaluate sv family ''down'' input = Inr down_w" "length down_w = length rj"
        "heap st' = heap st1" "queries st' = queries st1 @ [weight_query family ''down'' input]"
        "fills st' = fills st1 @ [weighted_fill md w syst_var region obs ''down'' down_w]"
      by auto
    from u d have "\<exists>family input up down.
               weight_input syst_var rj = Inr (family, input)
             \<and> evaluate sv family ''up'' input = Inr up
             \<and> evaluate sv family ''down'' input = Inr down
             \<and> length up = length rj \<and> length down = length rj
             \<and> queries st' = queries st
                 @ [weight_query family ''up'' input, weight_query family ''down'' input]
             \<and> fills st' = fills st
                 @ [weighted_fill md w syst_var region obs ''up'' up,
                    weighted_fill md w syst_var region obs ''down'' down]"
      by auto
    moreover have "heap st' = heap st"
      using u(4) d(3) by simp
    ultimately show ?thesis
      using True sa am ob by auto
  qed
qed

section \<open>Claim about the fills of a variation\<close>

lemma in_event_systs:
  "v \<in> set (event_systs p) \<longleftrightarrow>
     v = ''btag_var_0'' \<or> v = ''btag_var_1'' \<or> v = ''btag_var_2'' \<or> v = ''btag_var_3''
     \<or> (p = ''wjets'' \<and> v = ''scale_var'')"
  by (cases "p = ''wjets''") (simp_all add: event_systs_eq)

text \<open>
  Claim C5. One region of one pass, with \<open>w\<close> the normalisation weight. For a weight
  variation (\<open>scale_var\<close>, \<open>btag_var_0\<close> to \<open>btag_var_3\<close>) the correction service is
  asked exactly twice, upwards and downwards, with the momentum column of the leading
  jet for \<open>scale_var\<close> and of jet \<open>i\<close> for \<open>btag_var_i\<close>, and the histogram is filled
  exactly twice, under the variation's name followed by \<open>_up\<close> and \<open>_down\<close>, each
  event weighted by \<open>w\<close> times the returned correction. For every other variation the
  service is not asked and the histogram is filled once with weight \<open>w\<close>, under the
  candidate's name, or under the unit's own variation name when that is not
  \<open>nominal\<close>.
\<close>

theorem weight_variations_fill_twice:
  assumes "fill_region ops sv md w syst_var selections jets st region = Inr st'"
  shows "\<exists>selection region_jets observable.
       selections_all selections [region] = Inr selection
     \<and> apply_mask jets selection = Inr region_jets
     \<and> observable_of ops region region_jets = Inr observable
     \<and> (syst_var \<in> set (event_systs (md_process md)) \<longrightarrow>
          (\<exists>family i up down.
             (syst_var = ''scale_var'' \<and> family = ''scale_var'' \<and> i = 0
              \<or> i < 4 \<and> syst_var = ''btag_var_'' @ str_nat i \<and> family = ''btag_var'')
           \<and> (\<forall>js\<in>set region_jets. i < length js)
           \<and> evaluate sv family ''up'' (map (\<lambda>js. jet_pt (js ! i)) region_jets) = Inr up
           \<and> evaluate sv family ''down'' (map (\<lambda>js. jet_pt (js ! i)) region_jets) = Inr down
           \<and> queries st' = queries st @
               [\<lparr>q_family = family, q_direction = ''up'',
                 q_input = map (\<lambda>js. jet_pt (js ! i)) region_jets\<rparr>,
                \<lparr>q_family = family, q_direction = ''down'',
                 q_input = map (\<lambda>js. jet_pt (js ! i)) region_jets\<rparr>]
           \<and> fills st' = fills st @
               [\<lparr>f_region = region, f_observable = observable, f_process = md_process md,
                 f_variation = syst_var @ ''_up'', f_weight = map (\<lambda>c. w * c) up\<rparr>,
                \<lparr>f_region = region, f_observable = observable, f_process = md_process md,
                 f_variation = syst_var @ ''_down'', f_weight = map (\<lambda>c. w * c) down\<rparr>]))
     \<and> (syst_var \<notin> set (event_systs (md_process md)) \<longrightarrow>
          queries st' = queries st
          \<and> fills st' = fills st @
              [\<lparr>f_region = region, f_observable = observable, f_process = md_process md,
                f_variation = (if md_variation md \<noteq> ''nominal'' then md_variation md else syst_var),
                f_weight = replicate (length region_jets) w\<rparr>])"
proof -
  from fill_region_Inr [OF assms] obtain selection rj obs where
    sa: "selections_all selections [region] = Inr selection"
    and am: "apply_mask jets selection = Inr rj"
    and ob: "observable_of ops region rj = Inr obs"
    and eff: "if syst_var \<in> set (event_systs (md_process md))
        then \<exists>family input up down.
               weight_input syst_var rj = Inr (family, input)
             \<and> evaluate sv family ''up'' input = Inr up
             \<and> evaluate sv family ''down'' input = Inr down
             \<and> length up = length rj \<and> length down = length rj
             \<and> queries st' = queries st
                 @ [weight_query family ''up'' input, weight_query family ''down'' input]
             \<and> fills st' = fills st
                 @ [weighted_fill md w syst_var region obs ''up'' up,
                    weighted_fill md w syst_var region obs ''down'' down]
        else queries st' = queries st
             \<and> fills st' = fills st @ [plain_fill md w syst_var region obs (length rj)]"
    by blast
  have weighted: "\<exists>family i up down.
             (syst_var = ''scale_var'' \<and> family = ''scale_var'' \<and> i = 0
              \<or> i < 4 \<and> syst_var = ''btag_var_'' @ str_nat i \<and> family = ''btag_var'')
           \<and> (\<forall>js\<in>set rj. i < length js)
           \<and> evaluate sv family ''up'' (map (\<lambda>js. jet_pt (js ! i)) rj) = Inr up
           \<and> evaluate sv family ''down'' (map (\<lambda>js. jet_pt (js ! i)) rj) = Inr down
           \<and> queries st' = queries st @
               [\<lparr>q_family = family, q_direction = ''up'',
                 q_input = map (\<lambda>js. jet_pt (js ! i)) rj\<rparr>,
                \<lparr>q_family = family, q_direction = ''down'',
                 q_input = map (\<lambda>js. jet_pt (js ! i)) rj\<rparr>]
           \<and> fills st' = fills st @
               [\<lparr>f_region = region, f_observable = obs, f_process = md_process md,
                 f_variation = syst_var @ ''_up'', f_weight = map (\<lambda>c. w * c) up\<rparr>,
                \<lparr>f_region = region, f_observable = obs, f_process = md_process md,
                 f_variation = syst_var @ ''_down'', f_weight = map (\<lambda>c. w * c) down\<rparr>]"
    if mem: "syst_var \<in> set (event_systs (md_process md))"
  proof -
    from eff mem obtain family input up down where
      wi: "weight_input syst_var rj = Inr (family, input)"
      and ev: "evaluate sv family ''up'' input = Inr up" "evaluate sv family ''down'' input = Inr down"
      and q: "queries st' = queries st
                 @ [weight_query family ''up'' input, weight_query family ''down'' input]"
      and f: "fills st' = fills st
                 @ [weighted_fill md w syst_var region obs ''up'' up,
                    weighted_fill md w syst_var region obs ''down'' down]"
      by auto
    from mem have names: "syst_var = ''btag_var_0'' \<or> syst_var = ''btag_var_1''
        \<or> syst_var = ''btag_var_2'' \<or> syst_var = ''btag_var_3''
        \<or> (md_process md = ''wjets'' \<and> syst_var = ''scale_var'')"
      by (simp only: in_event_systs)
    have pick: "\<exists>i. (syst_var = ''scale_var'' \<and> family = ''scale_var'' \<and> i = 0
              \<or> i < 4 \<and> syst_var = ''btag_var_'' @ str_nat i \<and> family = ''btag_var'')
           \<and> pt_column rj i = Inr input"
      using names
    proof (elim disjE conjE)
      assume b0: "syst_var = ''btag_var_0''"
      from wi [unfolded b0 weight_input_eq]
      have "family = ''btag_var''" and "pt_column rj 0 = Inr input"
        by (simp_all add: ebind_eq_Inr)
      then show ?thesis
        by (intro exI [of _ "0"]) (simp add: b0 str_nat_digits)
    next
      assume b1: "syst_var = ''btag_var_1''"
      from wi [unfolded b1 weight_input_eq]
      have "family = ''btag_var''" and "pt_column rj 1 = Inr input"
        by (simp_all add: ebind_eq_Inr)
      then show ?thesis
        by (intro exI [of _ "1"]) (simp add: b1 str_nat_digits)
    next
      assume b2: "syst_var = ''btag_var_2''"
      from wi [unfolded b2 weight_input_eq]
      have "family = ''btag_var''" and "pt_column rj 2 = Inr input"
        by (simp_all add: ebind_eq_Inr)
      then show ?thesis
        by (intro exI [of _ "2"]) (simp add: b2 str_nat_digits)
    next
      assume b3: "syst_var = ''btag_var_3''"
      from wi [unfolded b3 weight_input_eq]
      have "family = ''btag_var''" and "pt_column rj 3 = Inr input"
        by (simp_all add: ebind_eq_Inr)
      then show ?thesis
        by (intro exI [of _ "3"]) (simp add: b3 str_nat_digits)
    next
      assume s: "syst_var = ''scale_var''"
      from wi [unfolded s weight_input_eq]
      have "family = ''scale_var''" and "pt_column rj 0 = Inr input"
        by (simp_all add: ebind_eq_Inr)
      then show ?thesis
        by (intro exI [of _ "0"]) (simp add: s str_nat_digits)
    qed
    then obtain i where i: "syst_var = ''scale_var'' \<and> family = ''scale_var'' \<and> i = 0
              \<or> i < 4 \<and> syst_var = ''btag_var_'' @ str_nat i \<and> family = ''btag_var''"
      and col: "pt_column rj i = Inr input"
      by blast
    from col have "\<forall>js\<in>set rj. i < length js" "input = map (\<lambda>js. jet_pt (js ! i)) rj"
      by (simp_all add: pt_column_Inr)
    then have input: "input = map (\<lambda>js. jet_pt (js ! i)) rj"
      and enough: "\<forall>js\<in>set rj. i < length js"
      by simp_all
    show ?thesis
      apply (rule exI [of _ family], rule exI [of _ i], rule exI [of _ up], rule exI [of _ down])
      apply (intro conjI)
           apply (rule i)
          apply (rule enough)
         apply (simp only: ev input [symmetric])
        apply (simp only: ev input [symmetric])
       apply (simp only: q input [symmetric] weight_query_def)
      apply (simp only: f weighted_fill_def append.simps)
      done
  qed
  have plain: "queries st' = queries st
          \<and> fills st' = fills st @
              [\<lparr>f_region = region, f_observable = obs, f_process = md_process md,
                f_variation = (if md_variation md \<noteq> ''nominal'' then md_variation md else syst_var),
                f_weight = replicate (length rj) w\<rparr>]"
    if "syst_var \<notin> set (event_systs (md_process md))"
    using eff that by (simp add: plain_fill_def)
  show ?thesis
    apply (rule exI [of _ selection], rule exI [of _ rj], rule exI [of _ obs])
    apply (intro conjI impI)
         apply (rule sa)
        apply (rule am)
       apply (rule ob)
      apply (erule weighted)
     apply (erule plain [THEN conjunct1])
    apply (erule plain [THEN conjunct2])
    done
qed

lemma demo_region_mask:
  "selections_all (registered [[]] [[demo_muon]] [demo_jets]) [''4j1b''] = Inr [True]"
  by (simp add: registered_all mask_4j1b_def zip3_def exactly_1l_def atleast_4j_def
      exactly_1b_def btagged_def B_TAG_THRESHOLD_def demo_jets_def demo_jet_def)

lemma demo_fill_btag:
  "fill_region cartesian_ops demo_services (demo_metadata ''ttbar'' ''nominal'') 2
     ''btag_var_1'' (registered [[]] [[demo_muon]] [demo_jets]) [demo_jets] empty_state ''4j1b''
   = Inr \<lparr>heap = [],
          fills = [\<lparr>f_region = ''4j1b'', f_observable = [Some 220], f_process = ''ttbar'',
                    f_variation = ''btag_var_1_up'', f_weight = [2 * 1.1]\<rparr>,
                   \<lparr>f_region = ''4j1b'', f_observable = [Some 220], f_process = ''ttbar'',
                    f_variation = ''btag_var_1_down'', f_weight = [2 * 0.9]\<rparr>],
          queries = [\<lparr>q_family = ''btag_var'', q_direction = ''up'', q_input = [50]\<rparr>,
                     \<lparr>q_family = ''btag_var'', q_direction = ''down'', q_input = [50]\<rparr>]\<rparr>"
  apply (simp add: fill_region_def demo_region_mask apply_mask_def observable_of_def
      in_event_systs demo_metadata_def)
  apply (simp add: calculate_ht_def fill_direction_def weight_input_eq pt_column_def
      cset_evaluate_def demo_services_def weights_mul_def hist_fill_def ak_num_def
      empty_state_def demo_jets_def demo_jet_def)
  done

lemma demo_fill_nominal:
  "fill_region cartesian_ops demo_services (demo_metadata ''ttbar'' ''nominal'') 2
     ''nominal'' (registered [[]] [[demo_muon]] [demo_jets]) [demo_jets] empty_state ''4j1b''
   = Inr \<lparr>heap = [],
          fills = [\<lparr>f_region = ''4j1b'', f_observable = [Some 220], f_process = ''ttbar'',
                    f_variation = ''nominal'', f_weight = [2]\<rparr>],
          queries = []\<rparr>"
  apply (simp add: fill_region_def demo_region_mask apply_mask_def observable_of_def
      in_event_systs demo_metadata_def)
  apply (simp add: calculate_ht_def hist_fill_def ak_num_def empty_state_def demo_jets_def
      demo_jet_def)
  done

theorem weight_variations_fill_twice_witness:
  "(\<exists>st'. fill_region cartesian_ops demo_services (demo_metadata ''ttbar'' ''nominal'') 2
       ''btag_var_1'' (registered [[]] [[demo_muon]] [demo_jets]) [demo_jets] empty_state ''4j1b''
       = Inr st'
     \<and> ''btag_var_1'' \<in> set (event_systs (md_process (demo_metadata ''ttbar'' ''nominal'')))
     \<and> map q_direction (queries st') = [''up'', ''down'']
     \<and> map q_input (queries st') = [[50], [50]]
     \<and> map f_variation (fills st') = [''btag_var_1_up'', ''btag_var_1_down'']
     \<and> map f_weight (fills st') = [[2 * 1.1], [2 * 0.9]])
   \<and> (\<exists>st'. fill_region cartesian_ops demo_services (demo_metadata ''ttbar'' ''nominal'') 2
       ''nominal'' (registered [[]] [[demo_muon]] [demo_jets]) [demo_jets] empty_state ''4j1b''
       = Inr st'
     \<and> ''nominal'' \<notin> set (event_systs (md_process (demo_metadata ''ttbar'' ''nominal'')))
     \<and> queries st' = []
     \<and> map f_variation (fills st') = [''nominal'']
     \<and> map f_weight (fills st') = [[2]])"
proof -
  have m1: "''btag_var_1'' \<in> set (event_systs (md_process (demo_metadata ''ttbar'' ''nominal'')))"
    by (simp add: in_event_systs)
  have m2: "''nominal'' \<notin> set (event_systs (md_process (demo_metadata ''ttbar'' ''nominal'')))"
    by (simp add: in_event_systs)
  show ?thesis
    using weight_variations_fill_twice [OF demo_fill_btag]
      weight_variations_fill_twice [OF demo_fill_nominal] m1 m2
    by (simp add: demo_fill_btag demo_fill_nominal)
qed

section \<open>Facts about the heap across passes\<close>

lemma not_kinematic:
  "''nominal'' \<notin> set jet_kinematic_systs"
  "v \<in> set (event_systs p) \<Longrightarrow> v \<notin> set jet_kinematic_systs"
proof -
  show "''nominal'' \<notin> set jet_kinematic_systs"
    by (simp add: jet_kinematic_systs_def)
  assume "v \<in> set (event_systs p)"
  then have "v = ''btag_var_0'' \<or> v = ''btag_var_1'' \<or> v = ''btag_var_2'' \<or> v = ''btag_var_3''
     \<or> (p = ''wjets'' \<and> v = ''scale_var'')"
    by (simp only: in_event_systs)
  then show "v \<notin> set jet_kinematic_systs"
    by (elim disjE conjE) (simp_all add: jet_kinematic_systs_def)
qed

lemma get_events_append:
  "get_events h ev = Inr evs \<Longrightarrow> get_events (h @ more_objs) ev = Inr evs"
  by (simp add: get_events_Inr nth_append)

lemma efold_fill_region_heap:
  "efold (fill_region ops sv md w syst_var selections jets) st rs = Inr st'
     \<Longrightarrow> heap st' = heap st"
proof (induction rs arbitrary: st)
  case Nil
  then show ?case by simp
next
  case (Cons r rs)
  from Cons.prems obtain st1 where
    one: "fill_region ops sv md w syst_var selections jets st r = Inr st1"
    and rest: "efold (fill_region ops sv md w syst_var selections jets) st1 rs = Inr st'"
    by (auto simp: ebind_eq_Inr)
  from fill_region_Inr [OF one] have "heap st1 = heap st" by blast
  with Cons.IH [OF rest] show ?case by simp
qed

lemma select_pass_needs_events:
  assumes "select_pass ev syst_var st = Inr r"
  shows "\<exists>evs. get_events (heap st) ev = Inr evs"
  using assms
  by (cases "get_events (heap st) ev") (simp_all add: select_pass_def load_objects_def)

lemma variation_pass_Inr:
  assumes "variation_pass ops sv md w ev st syst_var = Inr st'"
  shows "\<exists>evs js elecs muons jets.
       get_events (heap st) ev = Inr evs
     \<and> pass_jets evs syst_var = Inr js
     \<and> (elecs, muons, jets) = object_selection (map Electron evs) (map Muon evs) js
     \<and> length elecs = length evs \<and> length muons = length evs \<and> length jets = length evs
     \<and> efold (fill_region ops sv md w syst_var (registered elecs muons jets) jets)
          (st\<lparr>heap := heap st @ [JetArray js]\<rparr>) regions = Inr st'"
proof -
  from assms obtain elecs muons jets selections st1 where
    sp: "select_pass ev syst_var st = Inr (elecs, muons, jets, selections, st1)"
    and ef: "efold (fill_region ops sv md w syst_var selections jets) st1 regions = Inr st'"
    by (cases "select_pass ev syst_var st") (auto simp: variation_pass_def)
  from select_pass_needs_events [OF sp] obtain evs where ge: "get_events (heap st) ev = Inr evs"
    by blast
  from select_pass_Inr [OF ge sp] ef ge show ?thesis
    by blast
qed

lemma variation_pass_events:
  assumes "get_events (heap st) ev = Inr evs"
    and "variation_pass ops sv md w ev st syst_var = Inr st'"
  shows "get_events (heap st') ev = Inr evs"
proof -
  from variation_pass_Inr [OF assms(2)] assms(1) obtain js elecs muons jets where
    ef: "efold (fill_region ops sv md w syst_var (registered elecs muons jets) jets)
          (st\<lparr>heap := heap st @ [JetArray js]\<rparr>) regions = Inr st'"
    by auto
  from efold_fill_region_heap [OF ef] have "heap st' = heap st @ [JetArray js]"
    by simp
  with get_events_append [OF assms(1)] show ?thesis by simp
qed

lemma passes_keep_events:
  assumes "get_events (heap st) ev = Inr evs"
    and "efold (variation_pass ops sv md w ev) st vs = Inr st'"
  shows "get_events (heap st') ev = Inr evs"
  using assms
proof (induction vs arbitrary: st)
  case Nil
  then show ?case by simp
next
  case (Cons v vs)
  from Cons.prems(2) obtain st1 where
    one: "variation_pass ops sv md w ev st v = Inr st1"
    and rest: "efold (variation_pass ops sv md w ev) st1 vs = Inr st'"
    by (auto simp: ebind_eq_Inr)
  from variation_pass_events [OF Cons.prems(1) one] Cons.IH rest show ?case
    by blast
qed

lemma mul_event_value:
  "mul_event ps s = Inr r \<Longrightarrow>
     r = (case s of PerEvent c \<Rightarrow> map (\<lambda>p. p * c) ps | PerJet cs \<Rightarrow> map2 (*) ps cs)"
  by (cases s) (auto split: if_splits)

lemma ak_mul_value:
  assumes "ak_mul pts shifts = Inr r"
  shows "length shifts = length pts \<and> length r = length pts
     \<and> (\<forall>e<length pts. r ! e =
           (case shifts ! e of PerEvent c \<Rightarrow> map (\<lambda>p. p * c) (pts ! e)
            | PerJet cs \<Rightarrow> map2 (*) (pts ! e) cs))"
proof -
  from assms have len: "length pts = length shifts"
    and em: "emap (\<lambda>(ps, s). mul_event ps s) (zip pts shifts) = Inr r"
    by (auto simp: ak_mul_def split: if_splits)
  from em [unfolded emap_Inr_iff] len
  have lr: "length r = length pts"
    and each: "\<forall>e<length pts. mul_event (pts ! e) (shifts ! e) = Inr (r ! e)"
    by auto
  from each have "\<forall>e<length pts. r ! e =
           (case shifts ! e of PerEvent c \<Rightarrow> map (\<lambda>p. p * c) (pts ! e)
            | PerJet cs \<Rightarrow> map2 (*) (pts ! e) cs)"
    using mul_event_value by blast
  with len lr show ?thesis by simp
qed

section \<open>The processor runs to the end\<close>

lemma in_region_jets:
  assumes "apply_mask jets selection = Inr rj" and "js \<in> set rj"
  shows "\<exists>i<length jets. js = jets ! i \<and> selection ! i"
proof -
  from assms(1) have len: "length jets = length selection"
    and rj: "rj = map fst (filter snd (zip jets selection))"
    by (auto simp: apply_mask_def split: if_splits)
  from assms(2) rj obtain b where "(js, b) \<in> set (zip jets selection)" "b"
    by auto
  then show ?thesis
    using len by (auto simp: in_set_zip)
qed

lemma region_jets_4j1b:
  assumes "length elecs = length muons" "length muons = length jets"
    and "apply_mask jets (mask_4j1b elecs muons jets) = Inr rj" and "js \<in> set rj"
  shows "atleast_4j js \<and> exactly_1b js"
proof -
  from in_region_jets [OF assms(3,4)] obtain i where
    "i < length jets" "js = jets ! i" "mask_4j1b elecs muons jets ! i"
    by blast
  with assms(1,2) show ?thesis
    by (simp add: mask_4j1b_def zip3_def)
qed

lemma region_jets_4j2b:
  assumes "length elecs = length muons" "length muons = length jets"
    and "apply_mask jets (mask_4j2b elecs muons jets) = Inr rj" and "js \<in> set rj"
  shows "atleast_4j js \<and> atleast_2b js"
proof -
  from in_region_jets [OF assms(3,4)] obtain i where
    "i < length jets" "js = jets ! i" "mask_4j2b elecs muons jets ! i"
    by blast
  with assms(1,2) show ?thesis
    by (simp add: mask_4j2b_def zip3_def)
qed

lemma in_regions: "r \<in> set regions \<longleftrightarrow> r = ''4j1b'' \<or> r = ''4j2b''"
  by (simp add: regions_def)

lemma region_step_facts:
  assumes "length elecs = length muons" "length muons = length jets"
    and "region \<in> set regions"
  shows "\<exists>selection rj obs.
       selections_all (registered elecs muons jets) [region] = Inr selection
     \<and> apply_mask jets selection = Inr rj
     \<and> observable_of ops region rj = Inr obs
     \<and> (\<forall>js\<in>set rj. 4 \<le> length js)"
proof -
  from assms(3) have "region = ''4j1b'' \<or> region = ''4j2b''"
    by (simp only: in_regions)
  then show ?thesis
  proof
    assume r: "region = ''4j1b''"
    let ?m = "mask_4j1b elecs muons jets"
    have sa: "selections_all (registered elecs muons jets) [region] = Inr ?m"
      unfolding r by (rule registered_all(1) [OF assms(1,2)])
    have am: "apply_mask jets ?m = Inr (map fst (filter snd (zip jets ?m)))"
      using assms(1,2) by (simp add: apply_mask_def mask_lengths)
    have ob: "observable_of ops region (map fst (filter snd (zip jets ?m)))
        = Inr (calculate_ht (map fst (filter snd (zip jets ?m))))"
      by (simp add: observable_of_def r)
    have four: "\<forall>js\<in>set (map fst (filter snd (zip jets ?m))). 4 \<le> length js"
      using region_jets_4j1b [OF assms(1,2) am] by (auto simp: atleast_4j_def)
    from sa am ob four show ?thesis by blast
  next
    assume r: "region = ''4j2b''"
    let ?m = "mask_4j2b elecs muons jets"
    have sa: "selections_all (registered elecs muons jets) [region] = Inr ?m"
      unfolding r by (rule registered_all(2) [OF assms(1,2)])
    have am: "apply_mask jets ?m = Inr (map fst (filter snd (zip jets ?m)))"
      using assms(1,2) by (simp add: apply_mask_def mask_lengths)
    have ob: "observable_of ops region (map fst (filter snd (zip jets ?m)))
        = Inr (calculate_m_reco_top ops (map fst (filter snd (zip jets ?m))))"
      by (simp add: observable_of_def r)
    have four: "\<forall>js\<in>set (map fst (filter snd (zip jets ?m))). 4 \<le> length js"
      using region_jets_4j2b [OF assms(1,2) am] by (auto simp: atleast_4j_def)
    from sa am ob four show ?thesis by blast
  qed
qed

lemma weight_input_succeeds:
  assumes "v \<in> set (event_systs p)" and "\<forall>js\<in>set rj. 4 \<le> length js"
  shows "\<exists>family input. weight_input v rj = Inr (family, input)
     \<and> (family = ''btag_var'' \<or> family = ''scale_var'') \<and> length input = length rj"
proof -
  have col: "pt_column rj i = Inr (map (\<lambda>js. jet_pt (js ! i)) rj)" if "i < 4" for i
    using that assms(2) by (auto simp: pt_column_Inr)
  from assms(1) have "v = ''btag_var_0'' \<or> v = ''btag_var_1'' \<or> v = ''btag_var_2''
      \<or> v = ''btag_var_3'' \<or> (p = ''wjets'' \<and> v = ''scale_var'')"
    by (simp only: in_event_systs)
  then show ?thesis
  proof (elim disjE conjE)
    assume v: "v = ''btag_var_0''"
    show ?thesis unfolding v weight_input_eq by (simp add: col)
  next
    assume v: "v = ''btag_var_1''"
    show ?thesis unfolding v weight_input_eq by (simp add: col)
  next
    assume v: "v = ''btag_var_2''"
    show ?thesis unfolding v weight_input_eq by (simp add: col)
  next
    assume v: "v = ''btag_var_3''"
    show ?thesis unfolding v weight_input_eq by (simp add: col)
  next
    assume v: "v = ''scale_var''"
    show ?thesis unfolding v weight_input_eq by (simp add: col)
  qed
qed

lemma fill_direction_succeeds:
  assumes "weight_input v rj = Inr (family, input)"
    and "family = ''btag_var'' \<or> family = ''scale_var''" and "length input = length rj"
    and "service_ok sv"
  shows "\<exists>st'. fill_direction sv md v region rj (map (\<lambda>n. 1 * w) (ak_num rj)) obs st direction
           = Inr st'"
proof -
  from assms(2,4) obtain c where c: "evaluate sv family direction input = Inr c"
    "length c = length input"
    unfolding service_ok_def by blast
  have "weights_mul (map (\<lambda>n. 1 * w) (ak_num rj)) c = Inr (map (\<lambda>x. w * x) c)"
    by (rule weights_mul_Inr [THEN iffD2]) (simp add: c assms(3) ak_num_def)
  with assms(1) c(1) show ?thesis
    by (simp add: fill_direction_def cset_evaluate_def)
qed

lemma fill_region_succeeds:
  assumes "length elecs = length muons" "length muons = length jets"
    and "region \<in> set regions" and "service_ok sv"
  shows "\<exists>st'. fill_region ops sv md w v (registered elecs muons jets) jets st region = Inr st'"
proof -
  from region_step_facts [OF assms(1,2,3)] obtain selection rj obs where
    sa: "selections_all (registered elecs muons jets) [region] = Inr selection"
    and am: "apply_mask jets selection = Inr rj"
    and ob: "observable_of ops region rj = Inr obs"
    and four: "\<forall>js\<in>set rj. 4 \<le> length js"
    by blast
  show ?thesis
  proof (cases "v \<in> set (event_systs (md_process md))")
    case False
    with sa am ob show ?thesis
      by (simp add: fill_region_def Let_def)
  next
    case True
    let ?step = "fill_direction sv md v region rj (map (\<lambda>n. 1 * w) (ak_num rj)) obs"
    from weight_input_succeeds [OF True four] obtain family input where
      wi: "weight_input v rj = Inr (family, input)"
        "family = ''btag_var'' \<or> family = ''scale_var''" "length input = length rj"
      by blast
    from fill_direction_succeeds [OF wi assms(4)] obtain st1 where
      up: "?step st ''up'' = Inr st1"
      by blast
    from fill_direction_succeeds [OF wi assms(4)] obtain st2 where
      down: "?step st1 ''down'' = Inr st2"
      by blast
    have "efold ?step st [''up'', ''down''] = Inr st2"
      using up down by simp
    with sa am ob True show ?thesis
      by (simp add: fill_region_def Let_def)
  qed
qed

lemma regions_succeed:
  assumes "length elecs = length muons" "length muons = length jets"
    and "set rs \<subseteq> set regions" and "service_ok sv"
  shows "\<exists>st'. efold (fill_region ops sv md w v (registered elecs muons jets) jets) st rs = Inr st'"
  using assms(3)
proof (induction rs arbitrary: st)
  case Nil
  then show ?case by simp
next
  case (Cons r rs)
  then have r: "r \<in> set regions" and rs: "set rs \<subseteq> set regions"
    by simp_all
  from fill_region_succeeds [OF assms(1,2) r assms(4)] obtain st1 where
    one: "fill_region ops sv md w v (registered elecs muons jets) jets st r = Inr st1"
    by blast
  from Cons.IH [OF rs] obtain st' where
    "efold (fill_region ops sv md w v (registered elecs muons jets) jets) st1 rs = Inr st'"
    by blast
  with one show ?case by simp
qed

lemma variation_pass_succeeds:
  assumes "get_events (heap st) ev = Inr evs" and "pass_jets evs v = Inr js"
    and "service_ok sv"
  shows "\<exists>st'. variation_pass ops sv md w ev st v = Inr st'"
proof -
  from select_pass_succeeds [OF assms(1,2)] obtain elecs muons jets where
    sp: "select_pass ev v st
         = Inr (elecs, muons, jets, registered elecs muons jets, st\<lparr>heap := heap st @ [JetArray js]\<rparr>)"
    and len: "length elecs = length evs" "length muons = length evs" "length jets = length evs"
    by blast
  from len have l: "length elecs = length muons" "length muons = length jets"
    by simp_all
  from regions_succeed [OF l subset_refl assms(3)] obtain st' where
    "efold (fill_region ops sv md w v (registered elecs muons jets) jets)
       (st\<lparr>heap := heap st @ [JetArray js]\<rparr>) regions = Inr st'"
    by blast
  with sp show ?thesis
    by (simp add: variation_pass_def)
qed

lemma passes_succeed:
  assumes "get_events (heap st) ev = Inr evs"
    and "\<forall>v\<in>set vs. \<exists>js. pass_jets evs v = Inr js"
    and "service_ok sv"
  shows "\<exists>st'. efold (variation_pass ops sv md w ev) st vs = Inr st'"
  using assms(1,2)
proof (induction vs arbitrary: st)
  case Nil
  then show ?case by simp
next
  case (Cons v vs)
  from Cons.prems(2) obtain js where js: "pass_jets evs v = Inr js"
    by auto
  from variation_pass_succeeds [OF Cons.prems(1) js assms(3)] obtain st1 where
    one: "variation_pass ops sv md w ev st v = Inr st1"
    by blast
  from variation_pass_events [OF Cons.prems(1) one] have "get_events (heap st1) ev = Inr evs" .
  from Cons.IH [OF this] Cons.prems(2) obtain st' where
    "efold (variation_pass ops sv md w ev) st1 vs = Inr st'"
    by auto
  with one show ?case by simp
qed

section \<open>Facts about the whole processing unit\<close>

lemma emap_succeeds:
  "(\<forall>x\<in>set xs. \<exists>y. f x = Inr y) \<Longrightarrow> \<exists>ys. emap f xs = Inr ys"
proof (induction xs)
  case Nil
  then show ?case by simp
next
  case (Cons x xs)
  then obtain y ys where "f x = Inr y" "emap f xs = Inr ys"
    by auto
  then show ?case by simp
qed

lemma setitem_scalar_columns:
  "map Jet (setitem_scalar events name c) = map Jet events"
  "length (setitem_scalar events name c) = length events"
  "map (\<lambda>e. map jet_pt (Jet e)) (setitem_scalar events name c)
     = map (\<lambda>e. map jet_pt (Jet e)) events"
  by (simp_all add: setitem_scalar_def comp_def)

lemma shifted_batch_columns:
  assumes "length res = length events"
  shows "length (shifted_batch events res) = length events"
    and "map Jet (shifted_batch events res) = map Jet events"
  using assms
  by (simp_all add: shifted_batch_def setitem_scalar_def list_eq_iff_nth_eq)

lemma shifted_batch_fields:
  assumes "length res = length events"
  shows "getitem_field (shifted_batch events res) ''pt_scale_up''
           = Inr (map (\<lambda>e. PerEvent 1.03) events)"
    and "getitem_field (shifted_batch events res) ''pt_res_up'' = Inr (map PerJet res)"
  using assms
  by (simp_all add: getitem_field_def emap_Inr_iff shifted_batch_def setitem_scalar_def)

lemma attach_shifts_value:
  assumes "smearing_ok sv"
  shows "attach_shifts sv 0 [EventsArray events]
     = Inr [EventsArray (shifted_batch events (rand_gauss sv (map (\<lambda>e. map jet_pt (Jet e)) events)))]"
proof -
  have "length (map length (rand_gauss sv (map (\<lambda>e. map jet_pt (Jet e)) events)))
      = length (map length (map (\<lambda>e. map jet_pt (Jet e)) events))"
    using assms unfolding smearing_ok_def by (simp only:)
  then have len: "length (rand_gauss sv (map (\<lambda>e. map jet_pt (Jet e)) events)) = length events"
    by simp
  show ?thesis
    unfolding attach_shifts_def Let_def
    by (simp add: get_events_def len setitem_jagged_def setitem_scalar_columns
        shifted_batch_def)
qed

lemma pass_jets_succeeds:
  assumes "map length res = map (\<lambda>e. length (Jet e)) events"
  shows "\<exists>js. pass_jets (shifted_batch events res) v = Inr js"
proof -
  from assms have len: "length res = length events"
    by (metis length_map)
  note cols = shifted_batch_columns [OF len]
  note flds = shifted_batch_fields [OF len]
  let ?pts = "map (map jet_pt) (map Jet events)"
  have each: "length (res ! e) = length (Jet (events ! e))" if "e < length events" for e
  proof -
    from that len have "map length res ! e = length (res ! e)"
      "map (\<lambda>e. length (Jet e)) events ! e = length (Jet (events ! e))"
      by simp_all
    with assms show ?thesis by simp
  qed
  have "\<exists>pts. emap (\<lambda>(ps, s). mul_event ps s) (zip ?pts (map (\<lambda>e. PerEvent 1.03) events))
      = Inr pts"
    by (rule emap_succeeds) (auto simp: in_set_zip)
  then have scale: "\<exists>pts. ak_mul ?pts (map (\<lambda>e. PerEvent 1.03) events) = Inr pts"
    by (simp add: ak_mul_def)
  have "\<exists>pts. emap (\<lambda>(ps, s). mul_event ps s) (zip ?pts (map PerJet res)) = Inr pts"
    using len each by (intro emap_succeeds) (auto simp: in_set_zip)
  then have smear: "\<exists>pts. ak_mul ?pts (map PerJet res) = Inr pts"
    using len by (simp add: ak_mul_def)
  show ?thesis
  proof (cases "v \<in> set jet_kinematic_systs")
    case False
    then show ?thesis by (simp add: pass_jets_def)
  next
    case True
    then have "v = ''pt_scale_up'' \<or> v = ''pt_res_up''"
      by (simp add: jet_kinematic_systs_def)
    then show ?thesis
    proof
      assume v: "v = ''pt_scale_up''"
      from scale obtain pts where "ak_mul ?pts (map (\<lambda>e. PerEvent 1.03) events) = Inr pts"
        by blast
      then show ?thesis
        using True by (simp add: pass_jets_def v flds cols)
    next
      assume v: "v = ''pt_res_up''"
      from smear obtain pts where "ak_mul ?pts (map PerJet res) = Inr pts"
        by blast
      then show ?thesis
        using True by (simp add: pass_jets_def v flds cols)
    qed
  qed
qed

lemma process_Inr:
  assumes "process ops sv md events = Inr st"
  shows "\<exists>w h. xsec_weight md = Inr w \<and> attach_shifts sv 0 [EventsArray events] = Inr h
     \<and> efold (variation_pass ops sv md w 0) \<lparr>heap = h, fills = [], queries = []\<rparr>
         (syst_variations (md_process md) (md_variation md)) = Inr st"
  using assms by (auto simp: process_def Let_def ebind_eq_Inr)

lemma process_succeeds:
  assumes "md_process md \<noteq> ''data'' \<longrightarrow> md_nevts md \<noteq> 0"
    and "smearing_ok sv" and "service_ok sv"
  shows "\<exists>st. process ops sv md events = Inr st"
proof -
  let ?res = "rand_gauss sv (map (\<lambda>e. map jet_pt (Jet e)) events)"
  let ?h = "[EventsArray (shifted_batch events ?res)]"
  from assms(1) have "\<exists>w. xsec_weight md = Inr w"
    by (simp add: xsec_weight_def)
  then obtain w where w: "xsec_weight md = Inr w" ..
  have at: "attach_shifts sv 0 [EventsArray events] = Inr ?h"
    by (rule attach_shifts_value [OF assms(2)])
  have shape: "map length ?res = map (\<lambda>e. length (Jet e)) events"
    using assms(2) unfolding smearing_ok_def by (simp add: comp_def)
  have ge: "get_events (heap \<lparr>heap = ?h, fills = [], queries = []\<rparr>) 0
      = Inr (shifted_batch events ?res)"
    by (simp add: get_events_def)
  from passes_succeed [OF ge _ assms(3)] pass_jets_succeeds [OF shape]
  obtain st where
    "efold (variation_pass ops sv md w 0) \<lparr>heap = ?h, fills = [], queries = []\<rparr>
       (syst_variations (md_process md) (md_variation md)) = Inr st"
    by blast
  with w at show ?thesis
    by (simp add: process_def Let_def)
qed

lemma fill_region_count:
  assumes "fill_region ops sv md w v selections jets st region = Inr st'"
  shows "fills_in r st' = fills_in r st + (if r = region then fan_out (md_process md) v else 0)"
proof -
  from fill_region_Inr [OF assms] obtain obs n up down where
    "if v \<in> set (event_systs (md_process md))
     then fills st' = fills st
                 @ [weighted_fill md w v region obs ''up'' up,
                    weighted_fill md w v region obs ''down'' down]
     else fills st' = fills st @ [plain_fill md w v region obs n]"
    by (auto split: if_splits)
  then show ?thesis
    by (auto simp: fills_in_def fan_out_def weighted_fill_def plain_fill_def split: if_splits)
qed

lemma regions_count:
  assumes "efold (fill_region ops sv md w v selections jets) st regions = Inr st'"
    and "r \<in> set regions"
  shows "fills_in r st' = fills_in r st + fan_out (md_process md) v"
proof -
  from assms(1) obtain st1 where
    one: "fill_region ops sv md w v selections jets st ''4j1b'' = Inr st1"
    and two: "fill_region ops sv md w v selections jets st1 ''4j2b'' = Inr st'"
    by (auto simp: regions_def ebind_eq_Inr)
  from assms(2) have "r = ''4j1b'' \<or> r = ''4j2b''"
    by (simp only: in_regions)
  then show ?thesis
  proof
    assume r: "r = ''4j1b''"
    show ?thesis
      unfolding fill_region_count [OF two] fill_region_count [OF one] r by simp
  next
    assume r: "r = ''4j2b''"
    show ?thesis
      unfolding fill_region_count [OF two] fill_region_count [OF one] r by simp
  qed
qed

lemma variation_pass_count:
  assumes "variation_pass ops sv md w ev st v = Inr st'" and "r \<in> set regions"
  shows "fills_in r st' = fills_in r st + fan_out (md_process md) v"
proof -
  from variation_pass_Inr [OF assms(1)] obtain js elecs muons jets where
    "efold (fill_region ops sv md w v (registered elecs muons jets) jets)
          (st\<lparr>heap := heap st @ [JetArray js]\<rparr>) regions = Inr st'"
    by blast
  from regions_count [OF this assms(2)] show ?thesis
    by (simp add: fills_in_def)
qed

lemma passes_count:
  assumes "efold (variation_pass ops sv md w ev) st vs = Inr st'" and "r \<in> set regions"
  shows "fills_in r st' = fills_in r st + sum_list (map (fan_out (md_process md)) vs)"
  using assms(1)
proof (induction vs arbitrary: st)
  case Nil
  then show ?case by simp
next
  case (Cons v vs)
  from Cons.prems obtain st1 where
    one: "variation_pass ops sv md w ev st v = Inr st1"
    and rest: "efold (variation_pass ops sv md w ev) st1 vs = Inr st'"
    by (auto simp: ebind_eq_Inr)
  from Cons.IH [OF rest] variation_pass_count [OF one assms(2)] show ?case
    by simp
qed

lemma syst_variations_eq:
  "syst_variations p ''nominal'' =
     [''nominal'', ''pt_scale_up'', ''pt_res_up'',
      ''btag_var_0'', ''btag_var_1'', ''btag_var_2'', ''btag_var_3'']
     @ (if p = ''wjets'' then [''scale_var''] else [])"
  "b \<noteq> ''nominal'' \<Longrightarrow> syst_variations p b = [''nominal'']"
  by (simp_all add: syst_variations_def jet_kinematic_systs_def event_systs_eq)

lemma fan_out_values:
  "fan_out p ''nominal'' = 1" "fan_out p ''pt_scale_up'' = 1" "fan_out p ''pt_res_up'' = 1"
  "fan_out p ''btag_var_0'' = 2" "fan_out p ''btag_var_1'' = 2"
  "fan_out p ''btag_var_2'' = 2" "fan_out p ''btag_var_3'' = 2"
  "fan_out ''wjets'' ''scale_var'' = 2"
  by (simp_all add: fan_out_def in_event_systs)

section \<open>Claims about the passes of the variation loop\<close>

lemma ak_mul_each:
  assumes "ak_mul pts shifts = Inr r" and "e < length pts"
  shows "mul_event (pts ! e) (shifts ! e) = Inr (r ! e)"
proof -
  from assms(1) have len: "length pts = length shifts"
    and em: "emap (\<lambda>(ps, s). mul_event ps s) (zip pts shifts) = Inr r"
    by (auto simp: ak_mul_def split: if_splits)
  from em [unfolded emap_Inr_iff] len assms(2) show ?thesis
    by auto
qed

lemma getitem_field_each:
  assumes "getitem_field evs name = Inr shifts"
  shows "length shifts = length evs
     \<and> (\<forall>e<length evs. map_of (extra (evs ! e)) name = Some (shifts ! e))"
proof -
  from assms [unfolded getitem_field_def emap_Inr_iff]
  have len: "length shifts = length evs"
    and each: "\<forall>e<length evs.
        (case map_of (extra (evs ! e)) name of None \<Rightarrow> Inl UnknownName | Some s \<Rightarrow> Inr s)
          = Inr (shifts ! e)"
    by simp_all
  have "map_of (extra (evs ! e)) name = Some (shifts ! e)" if "e < length evs" for e
    using each that by (auto split: option.splits)
  with len show ?thesis by simp
qed

lemma shifted_event_jets:
  assumes "mul_event (map jet_pt js0) s = Inr ps"
  shows "(case s of PerEvent c \<Rightarrow> True | PerJet cs \<Rightarrow> length cs = length js0)
     \<and> length (map2 (\<lambda>j p. j\<lparr>jet_pt := p\<rparr>) js0 ps) = length js0
     \<and> (\<forall>k<length js0.
           map2 (\<lambda>j p. j\<lparr>jet_pt := p\<rparr>) js0 ps ! k
             = (js0 ! k)\<lparr>jet_pt := jet_pt (js0 ! k) * (case s of PerEvent c \<Rightarrow> c | PerJet cs \<Rightarrow> cs ! k)\<rparr>)"
proof (cases s)
  case (PerEvent c)
  with assms have "ps = map (\<lambda>p. p * c) (map jet_pt js0)"
    by simp
  then show ?thesis
    by (simp add: PerEvent)
next
  case (PerJet cs)
  with assms have len: "length cs = length js0" and ps: "ps = map2 (*) (map jet_pt js0) cs"
    by (auto split: if_splits)
  then show ?thesis
    by (simp add: PerJet)
qed

text \<open>
  Claim C4. Let the batch at address \<open>ev\<close> hold the events \<open>evs\<close>, let any sequence of
  passes have run (kinematic ones included), and let the next pass load its objects.
  Then the batch still holds \<open>evs\<close>, before and after the load, and the electrons and
  muons of the pass are those of the batch. For a kinematic variation the jet array of
  the pass has, event by event, the jets of the batch, each with its momentum replaced
  by the momentum in the batch times the multiplier that the batch holds under the
  variation's name (one number for the event, or one number per jet) and every other
  field as in the batch. For any other variation it holds the jets of the batch
  unchanged.
\<close>

theorem kinematic_shift_leaves_batch_unchanged:
  assumes "get_events (heap st) ev = Inr evs"
    and "efold (variation_pass ops sv md w ev) st earlier = Inr st1"
    and "load_objects ev syst_var st1 = Inr (elecs, muons, jets, st2)"
  shows "get_events (heap st1) ev = Inr evs \<and> get_events (heap st2) ev = Inr evs
     \<and> elecs = map Electron evs \<and> muons = map Muon evs
     \<and> (syst_var \<in> set jet_kinematic_systs \<longrightarrow>
          (\<exists>js. get_jets (heap st2) jets = Inr js \<and> length js = length evs
             \<and> (\<forall>e<length evs.
                   length (js ! e) = length (Jet (evs ! e))
                   \<and> (\<exists>s. map_of (extra (evs ! e)) syst_var = Some s
                          \<and> (case s of PerEvent c \<Rightarrow> True
                              | PerJet cs \<Rightarrow> length cs = length (Jet (evs ! e)))
                          \<and> (\<forall>k<length (Jet (evs ! e)).
                                js ! e ! k =
                                  (Jet (evs ! e) ! k)
                                    \<lparr>jet_pt := jet_pt (Jet (evs ! e) ! k)
                                       * (case s of PerEvent c \<Rightarrow> c | PerJet cs \<Rightarrow> cs ! k)\<rparr>)))))
     \<and> (syst_var \<notin> set jet_kinematic_systs \<longrightarrow> get_jets (heap st2) jets = Inr (map Jet evs))"
proof -
  have ge1: "get_events (heap st1) ev = Inr evs"
    by (rule passes_keep_events [OF assms(1,2)])
  from assms(3) [unfolded load_objects_eq [OF ge1]] obtain js where
    pj: "pass_jets evs syst_var = Inr js"
    and res: "elecs = map Electron evs" "muons = map Muon evs" "jets = length (heap st1)"
      "st2 = st1\<lparr>heap := heap st1 @ [JetArray js]\<rparr>"
    by (auto simp: ebind_eq_Inr)
  have ge2: "get_events (heap st2) ev = Inr evs"
    using get_events_append [OF ge1] res(4) by simp
  have gj: "get_jets (heap st2) jets = Inr js"
    by (simp add: res get_jets_new)
  have kin: "\<exists>js. get_jets (heap st2) jets = Inr js \<and> length js = length evs
             \<and> (\<forall>e<length evs.
                   length (js ! e) = length (Jet (evs ! e))
                   \<and> (\<exists>s. map_of (extra (evs ! e)) syst_var = Some s
                          \<and> (case s of PerEvent c \<Rightarrow> True
                              | PerJet cs \<Rightarrow> length cs = length (Jet (evs ! e)))
                          \<and> (\<forall>k<length (Jet (evs ! e)).
                                js ! e ! k =
                                  (Jet (evs ! e) ! k)
                                    \<lparr>jet_pt := jet_pt (Jet (evs ! e) ! k)
                                       * (case s of PerEvent c \<Rightarrow> c | PerJet cs \<Rightarrow> cs ! k)\<rparr>)))"
    if k: "syst_var \<in> set jet_kinematic_systs"
  proof -
    from pj k obtain shifts pts where
      gf: "getitem_field evs syst_var = Inr shifts"
      and am: "ak_mul (map (map jet_pt) (map Jet evs)) shifts = Inr pts"
      and js: "js = with_pt (map Jet evs) pts"
      by (auto simp: pass_jets_def ebind_eq_Inr)
    from ak_mul_length [OF am] have lp: "length pts = length evs"
      by simp
    have ljs: "length js = length evs"
      by (simp add: js with_pt_def lp)
    have each: "length (js ! e) = length (Jet (evs ! e))
                   \<and> (\<exists>s. map_of (extra (evs ! e)) syst_var = Some s
                          \<and> (case s of PerEvent c \<Rightarrow> True
                              | PerJet cs \<Rightarrow> length cs = length (Jet (evs ! e)))
                          \<and> (\<forall>k<length (Jet (evs ! e)).
                                js ! e ! k =
                                  (Jet (evs ! e) ! k)
                                    \<lparr>jet_pt := jet_pt (Jet (evs ! e) ! k)
                                       * (case s of PerEvent c \<Rightarrow> c | PerJet cs \<Rightarrow> cs ! k)\<rparr>))"
      if e: "e < length evs" for e
    proof -
      from getitem_field_each [OF gf] e
      have fld: "map_of (extra (evs ! e)) syst_var = Some (shifts ! e)"
        by simp
      from ak_mul_each [OF am, of e] e
      have me: "mul_event (map jet_pt (Jet (evs ! e))) (shifts ! e) = Inr (pts ! e)"
        by simp
      have jse: "js ! e = map2 (\<lambda>j p. j\<lparr>jet_pt := p\<rparr>) (Jet (evs ! e)) (pts ! e)"
        using e lp by (simp add: js with_pt_def)
      from shifted_event_jets [OF me] fld show ?thesis
        unfolding jse by blast
    qed
    from gj ljs each show ?thesis
      by blast
  qed
  have plain: "get_jets (heap st2) jets = Inr (map Jet evs)"
    if "syst_var \<notin> set jet_kinematic_systs"
    using pj that gj by (simp add: pass_jets_def)
  show ?thesis
    apply (intro conjI impI)
         apply (rule ge1)
        apply (rule ge2)
       apply (rule res(1))
      apply (rule res(2))
     apply (erule kin)
    apply (erule plain)
    done
qed

text \<open>
  Claim C7. For every variation that is not a kinematic shift, in particular for
  \<open>nominal\<close> and for every weight variation, the selection of the pass succeeds, and
  its filtered collections and its region masks are those of the object selection and
  the region selection on the unshifted collections of the batch; they are the same as
  those of the pass for \<open>nominal\<close>, whatever passes ran in between.
\<close>

theorem weight_variations_reuse_nominal_selection:
  assumes "get_events (heap st) ev = Inr evs"
    and "get_events (heap st') ev = Inr evs"
    and "syst_var \<notin> set jet_kinematic_systs"
  shows "''nominal'' \<notin> set jet_kinematic_systs
     \<and> (\<forall>v\<in>set (event_systs p). v \<notin> set jet_kinematic_systs)
     \<and> (\<exists>elecs muons jets selections st1 st1'.
           select_pass ev syst_var st = Inr (elecs, muons, jets, selections, st1)
         \<and> select_pass ev ''nominal'' st' = Inr (elecs, muons, jets, selections, st1')
         \<and> (elecs, muons, jets)
             = object_selection (map Electron evs) (map Muon evs) (map Jet evs)
         \<and> region_selection elecs muons jets = Inr selections)"
proof -
  have pj: "pass_jets evs syst_var = Inr (map Jet evs)"
    using assms(3) by (simp add: pass_jets_def)
  have pn: "pass_jets evs ''nominal'' = Inr (map Jet evs)"
    by (simp add: pass_jets_def not_kinematic(1))
  from select_pass_succeeds [OF assms(1) pj] obtain elecs muons jets where
    a: "select_pass ev syst_var st
         = Inr (elecs, muons, jets, registered elecs muons jets,
                st\<lparr>heap := heap st @ [JetArray (map Jet evs)]\<rparr>)"
    and os: "(elecs, muons, jets)
         = object_selection (map Electron evs) (map Muon evs) (map Jet evs)"
    and len: "length elecs = length evs" "length muons = length evs" "length jets = length evs"
    by blast
  from select_pass_succeeds [OF assms(2) pn] os
  have b: "select_pass ev ''nominal'' st'
         = Inr (elecs, muons, jets, registered elecs muons jets,
                st'\<lparr>heap := heap st' @ [JetArray (map Jet evs)]\<rparr>)"
    by (metis Pair_inject)
  have rs: "region_selection elecs muons jets = Inr (registered elecs muons jets)"
    using len by (intro region_selection_value) simp_all
  from a b os rs have "\<exists>elecs muons jets selections st1 st1'.
           select_pass ev syst_var st = Inr (elecs, muons, jets, selections, st1)
         \<and> select_pass ev ''nominal'' st' = Inr (elecs, muons, jets, selections, st1')
         \<and> (elecs, muons, jets)
             = object_selection (map Electron evs) (map Muon evs) (map Jet evs)
         \<and> region_selection elecs muons jets = Inr selections"
    by blast
  moreover have "\<forall>v\<in>set (event_systs p). v \<notin> set jet_kinematic_systs"
    using not_kinematic(2) by blast
  ultimately show ?thesis
    using not_kinematic(1) by blast
qed

lemma demo_services_ok: "service_ok demo_services" "smearing_ok demo_services"
  by (simp_all add: service_ok_def smearing_ok_def demo_services_def comp_def)

lemma demo_state_events:
  "get_events (heap demo_state) 0 = Inr (shifted_batch [demo_event] [[1, 1, 1, 1]])"
  by (simp add: demo_state_def get_events_def)

lemma demo_shape:
  "map length [[1, 1, 1, 1 :: real]] = map (\<lambda>e. length (Jet e)) [demo_event]"
  by (simp add: demo_event_def demo_jets_def)

lemma smeared_state_events:
  "get_events (heap smeared_state) 0 = Inr (shifted_batch [demo_event] [[1.1, 0.9, 1, 1.2]])"
  by (simp add: smeared_state_def get_events_def)

lemma smeared_state_attach:
  "attach_shifts demo_smearing 0 [EventsArray [demo_event]] = Inr (heap smeared_state)"
  by (simp add: attach_shifts_def get_events_def setitem_scalar_def setitem_jagged_def
      demo_smearing_def smeared_state_def shifted_batch_def demo_event_def demo_jets_def)

lemma demo_smearing_ok: "service_ok demo_smearing"
  by (simp add: service_ok_def demo_smearing_def demo_services_def)

lemma smeared_shape:
  "map length [[1.1, 0.9, 1, 1.2 :: real]] = map (\<lambda>e. length (Jet e)) [demo_event]"
  by (simp add: demo_event_def demo_jets_def)

lemma smeared_pass_jets:
  "pass_jets (shifted_batch [demo_event] [[1.1, 0.9, 1, 1.2]]) ''pt_scale_up''
     = Inr [[demo_jet 41.2 0.9, demo_jet 51.5 0.1, demo_jet 61.8 0.1, demo_jet 72.1 0.1]]"
  "pass_jets (shifted_batch [demo_event] [[1.1, 0.9, 1, 1.2]]) ''pt_res_up''
     = Inr [[demo_jet 44 0.9, demo_jet 45 0.1, demo_jet 60 0.1, demo_jet 84 0.1]]"
  "pass_jets (shifted_batch [demo_event] [[1.1, 0.9, 1, 1.2]]) ''btag_var_0'' = Inr [demo_jets]"
  by (simp_all add: pass_jets_def jet_kinematic_systs_def getitem_field_def shifted_batch_def
      setitem_scalar_def ak_mul_def with_pt_def demo_event_def demo_jets_def demo_jet_def)

theorem kinematic_shift_leaves_batch_unchanged_witness:
  "\<exists>st1 elecs muons jets st2 elecs' muons' jets' st2' elecs'' muons'' jets'' st2''.
     attach_shifts demo_smearing 0 [EventsArray [demo_event]] = Inr (heap smeared_state)
   \<and> get_events (heap smeared_state) 0 = Inr (shifted_batch [demo_event] [[1.1, 0.9, 1, 1.2]])
   \<and> efold (variation_pass cartesian_ops demo_smearing (demo_metadata ''ttbar'' ''nominal'') 2 0)
        smeared_state [''nominal'', ''pt_scale_up'', ''pt_res_up''] = Inr st1
   \<and> load_objects 0 ''pt_scale_up'' st1 = Inr (elecs, muons, jets, st2)
   \<and> load_objects 0 ''pt_res_up'' st1 = Inr (elecs', muons', jets', st2')
   \<and> load_objects 0 ''btag_var_0'' st1 = Inr (elecs'', muons'', jets'', st2'')
   \<and> ''pt_scale_up'' \<in> set jet_kinematic_systs
   \<and> ''pt_res_up'' \<in> set jet_kinematic_systs
   \<and> ''btag_var_0'' \<notin> set jet_kinematic_systs
   \<and> get_events (heap st1) 0 = Inr (shifted_batch [demo_event] [[1.1, 0.9, 1, 1.2]])
   \<and> get_events (heap st2) 0 = Inr (shifted_batch [demo_event] [[1.1, 0.9, 1, 1.2]])
   \<and> get_events (heap st2') 0 = Inr (shifted_batch [demo_event] [[1.1, 0.9, 1, 1.2]])
   \<and> map Jet (shifted_batch [demo_event] [[1.1, 0.9, 1, 1.2]])
       = [[demo_jet 40 0.9, demo_jet 50 0.1, demo_jet 60 0.1, demo_jet 70 0.1]]
   \<and> get_jets (heap st2) jets
       = Inr [[demo_jet 41.2 0.9, demo_jet 51.5 0.1, demo_jet 61.8 0.1, demo_jet 72.1 0.1]]
   \<and> get_jets (heap st2') jets'
       = Inr [[demo_jet 44 0.9, demo_jet 45 0.1, demo_jet 60 0.1, demo_jet 84 0.1]]
   \<and> get_jets (heap st2'') jets''
       = Inr [[demo_jet 40 0.9, demo_jet 50 0.1, demo_jet 60 0.1, demo_jet 70 0.1]]"
proof -
  let ?B = "shifted_batch [demo_event] [[1.1, 0.9, 1, 1.2]]"
  let ?md = "demo_metadata ''ttbar'' ''nominal''"
  let ?S = "[[demo_jet 41.2 0.9, demo_jet 51.5 0.1, demo_jet 61.8 0.1, demo_jet 72.1 0.1]]"
  let ?R = "[[demo_jet 44 0.9, demo_jet 45 0.1, demo_jet 60 0.1, demo_jet 84 0.1]]"
  note pj = pass_jets_succeeds [OF smeared_shape]
  from passes_succeed [OF smeared_state_events _ demo_smearing_ok] pj
  obtain st1 where
    run: "efold (variation_pass cartesian_ops demo_smearing ?md 2 0) smeared_state
            [''nominal'', ''pt_scale_up'', ''pt_res_up''] = Inr st1"
    by blast
  have ge1: "get_events (heap st1) 0 = Inr ?B"
    by (rule passes_keep_events [OF smeared_state_events run])
  have l1: "load_objects 0 ''pt_scale_up'' st1
      = Inr (map Electron ?B, map Muon ?B, length (heap st1),
             st1\<lparr>heap := heap st1 @ [JetArray ?S]\<rparr>)"
    by (simp only: load_objects_eq [OF ge1] smeared_pass_jets ebind_Inr)
  have l2: "load_objects 0 ''pt_res_up'' st1
      = Inr (map Electron ?B, map Muon ?B, length (heap st1),
             st1\<lparr>heap := heap st1 @ [JetArray ?R]\<rparr>)"
    by (simp only: load_objects_eq [OF ge1] smeared_pass_jets ebind_Inr)
  have l3: "load_objects 0 ''btag_var_0'' st1
      = Inr (map Electron ?B, map Muon ?B, length (heap st1),
             st1\<lparr>heap := heap st1 @ [JetArray [demo_jets]]\<rparr>)"
    by (simp only: load_objects_eq [OF ge1] smeared_pass_jets ebind_Inr)
  have k: "''pt_scale_up'' \<in> set jet_kinematic_systs" "''pt_res_up'' \<in> set jet_kinematic_systs"
    "''btag_var_0'' \<notin> set jet_kinematic_systs"
    by (simp_all add: jet_kinematic_systs_def)
  from kinematic_shift_leaves_batch_unchanged [OF smeared_state_events run l1]
  have a: "get_events (heap (st1\<lparr>heap := heap st1 @ [JetArray ?S]\<rparr>)) 0 = Inr ?B"
    by blast
  from kinematic_shift_leaves_batch_unchanged [OF smeared_state_events run l2]
  have b: "get_events (heap (st1\<lparr>heap := heap st1 @ [JetArray ?R]\<rparr>)) 0 = Inr ?B"
    by blast
  from kinematic_shift_leaves_batch_unchanged [OF smeared_state_events run l3] k(3)
  have c: "get_jets (heap (st1\<lparr>heap := heap st1 @ [JetArray [demo_jets]]\<rparr>)) (length (heap st1))
      = Inr (map Jet ?B)"
    by blast
  have nominal: "map Jet ?B = [[demo_jet 40 0.9, demo_jet 50 0.1, demo_jet 60 0.1, demo_jet 70 0.1]]"
    by (simp add: shifted_batch_def setitem_scalar_def demo_event_def demo_jets_def)
  have gs: "get_jets (heap (st1\<lparr>heap := heap st1 @ [JetArray ?S]\<rparr>)) (length (heap st1)) = Inr ?S"
    "get_jets (heap (st1\<lparr>heap := heap st1 @ [JetArray ?R]\<rparr>)) (length (heap st1)) = Inr ?R"
    by (simp_all add: get_jets_new)
  show ?thesis
    apply (intro exI conjI)
                   apply (rule smeared_state_attach)
                  apply (rule smeared_state_events)
                 apply (rule run)
                apply (rule l1)
               apply (rule l2)
              apply (rule l3)
             apply (rule k(1))
            apply (rule k(2))
           apply (rule k(3))
          apply (rule ge1)
         apply (rule a)
        apply (rule b)
       apply (rule nominal)
      apply (rule gs(1))
     apply (rule gs(2))
    apply (rule c [unfolded nominal])
    done
qed

theorem weight_variations_reuse_nominal_selection_witness:
  "get_events (heap demo_state) 0 = Inr (shifted_batch [demo_event] [[1, 1, 1, 1]])
   \<and> get_events (heap (demo_state\<lparr>heap := heap demo_state @ [JetArray []]\<rparr>)) 0
       = Inr (shifted_batch [demo_event] [[1, 1, 1, 1]])
   \<and> ''btag_var_2'' \<notin> set jet_kinematic_systs
   \<and> (\<exists>elecs muons jets selections st1 st1'.
         select_pass 0 ''btag_var_2'' demo_state = Inr (elecs, muons, jets, selections, st1)
       \<and> select_pass 0 ''nominal'' (demo_state\<lparr>heap := heap demo_state @ [JetArray []]\<rparr>)
           = Inr (elecs, muons, jets, selections, st1')
       \<and> region_selection elecs muons jets = Inr selections)"
proof -
  have ge': "get_events (heap (demo_state\<lparr>heap := heap demo_state @ [JetArray []]\<rparr>)) 0
       = Inr (shifted_batch [demo_event] [[1, 1, 1, 1]])"
    using get_events_append [OF demo_state_events] by simp
  have k: "''btag_var_2'' \<notin> set jet_kinematic_systs"
    by (simp add: jet_kinematic_systs_def)
  from weight_variations_reuse_nominal_selection [OF demo_state_events ge' k]
    demo_state_events ge' k
  show ?thesis by blast
qed

section \<open>Claims about the fan-out and the fills of the selected events\<close>

text \<open>
  Claim C1. The candidate list always holds \<open>nominal\<close>. For a unit whose own variation
  is \<open>nominal\<close> it is \<open>nominal\<close>, the two kinematic shifts and the four b-tag weight
  variations, followed by \<open>scale_var\<close> exactly when the process is \<open>wjets\<close>; for any
  other unit it is \<open>nominal\<close> alone. A unit that runs to the end has filled each
  region 11 times when its variation is \<open>nominal\<close> and its process is not \<open>wjets\<close>
  (so for \<open>ttbar\<close>), 13 times for \<open>wjets\<close>, and once when its variation is not
  \<open>nominal\<close>.
\<close>

theorem variation_fan_out:
  "''nominal'' \<in> set (syst_variations p b)
   \<and> syst_variations p ''nominal'' =
       [''nominal'', ''pt_scale_up'', ''pt_res_up'',
        ''btag_var_0'', ''btag_var_1'', ''btag_var_2'', ''btag_var_3'']
       @ (if p = ''wjets'' then [''scale_var''] else [])
   \<and> (b \<noteq> ''nominal'' \<longrightarrow> syst_variations p b = [''nominal''])
   \<and> (\<forall>st r. process ops sv md events = Inr st \<and> r \<in> set regions \<longrightarrow>
         fills_in r st =
           (if md_variation md = ''nominal''
            then (if md_process md = ''wjets'' then 13 else 11) else 1))
   \<and> (\<forall>st r. process ops sv md events = Inr st \<and> r \<in> set regions
         \<and> md_variation md = ''nominal'' \<and> md_process md = ''ttbar'' \<longrightarrow>
         length (filter (\<lambda>f. f_region f = r) (fills st)) = 11)"
proof -
  have count: "fills_in r st =
           (if md_variation md = ''nominal''
            then (if md_process md = ''wjets'' then 13 else 11) else 1)"
    if run: "process ops sv md events = Inr st" and r: "r \<in> set regions" for st r
  proof -
    from process_Inr [OF run] obtain w h where
      "efold (variation_pass ops sv md w 0) \<lparr>heap = h, fills = [], queries = []\<rparr>
         (syst_variations (md_process md) (md_variation md)) = Inr st"
      by blast
    from passes_count [OF this r]
    have total: "fills_in r st
        = sum_list (map (fan_out (md_process md))
            (syst_variations (md_process md) (md_variation md)))"
      by (simp add: fills_in_def)
    show ?thesis
    proof (cases "md_variation md = ''nominal''")
      case False
      then show ?thesis
        by (simp add: total syst_variations_eq fan_out_values)
    next
      case True
      show ?thesis
      proof (cases "md_process md = ''wjets''")
        case w: True
        show ?thesis
          by (simp add: total True w syst_variations_eq fan_out_values)
      next
        case nw: False
        show ?thesis
          by (simp add: total True nw syst_variations_eq fan_out_values)
      qed
    qed
  qed
  have ttbar: "length (filter (\<lambda>f. f_region f = r) (fills st)) = 11"
    if "process ops sv md events = Inr st" "r \<in> set regions"
      "md_variation md = ''nominal''" "md_process md = ''ttbar''" for st r
    using count [OF that(1,2)] that(3,4) by (simp add: fills_in_def)
  have first: "''nominal'' \<in> set (syst_variations p b)"
    by (simp add: syst_variations_def)
  have other: "b \<noteq> ''nominal'' \<longrightarrow> syst_variations p b = [''nominal'']"
    by (simp add: syst_variations_eq)
  show ?thesis
    apply (intro conjI allI impI)
        apply (rule first)
       apply (rule syst_variations_eq(1))
      apply (erule other [rule_format])
     apply (erule conjE, erule (1) count)
    apply (elim conjE, erule (3) ttbar)
    done
qed

theorem variation_fan_out_witness:
  "\<exists>st st'.
     process cartesian_ops demo_services (demo_metadata ''ttbar'' ''nominal'') [demo_event] = Inr st
   \<and> ''4j1b'' \<in> set regions \<and> ''4j2b'' \<in> set regions
   \<and> md_variation (demo_metadata ''ttbar'' ''nominal'') = ''nominal''
   \<and> md_process (demo_metadata ''ttbar'' ''nominal'') = ''ttbar''
   \<and> length (filter (\<lambda>f. f_region f = ''4j1b'') (fills st)) = 11
   \<and> length (filter (\<lambda>f. f_region f = ''4j2b'') (fills st)) = 11
   \<and> process cartesian_ops demo_services (demo_metadata ''ttbar'' ''pt_scale_up'') [demo_event]
       = Inr st'
   \<and> ''pt_scale_up'' \<noteq> ''nominal''
   \<and> syst_variations ''ttbar'' ''pt_scale_up'' = [''nominal'']
   \<and> fills_in ''4j1b'' st' = 1 \<and> fills_in ''4j2b'' st' = 1"
proof -
  let ?md = "demo_metadata ''ttbar'' ''nominal''"
  let ?md' = "demo_metadata ''ttbar'' ''pt_scale_up''"
  have nz: "md_process ?md \<noteq> ''data'' \<longrightarrow> md_nevts ?md \<noteq> 0"
    "md_process ?md' \<noteq> ''data'' \<longrightarrow> md_nevts ?md' \<noteq> 0"
    by (simp_all add: demo_metadata_def)
  from process_succeeds [OF nz(1) demo_services_ok(2,1)] obtain st where
    run: "process cartesian_ops demo_services ?md [demo_event] = Inr st"
    by blast
  from process_succeeds [OF nz(2) demo_services_ok(2,1)] obtain st' where
    run': "process cartesian_ops demo_services ?md' [demo_event] = Inr st'"
    by blast
  have r: "''4j1b'' \<in> set regions" "''4j2b'' \<in> set regions"
    by (simp_all add: regions_def)
  have m: "md_variation ?md = ''nominal''" "md_process ?md = ''ttbar''"
    "md_variation ?md' = ''pt_scale_up''" "md_process ?md' = ''ttbar''"
    by (simp_all add: demo_metadata_def)
  have ne: "''pt_scale_up'' \<noteq> ''nominal''"
    by simp
  note t = variation_fan_out [of "''ttbar''" "''pt_scale_up''" cartesian_ops demo_services ?md
      "[demo_event]"]
  note t' = variation_fan_out [of "''ttbar''" "''pt_scale_up''" cartesian_ops demo_services ?md'
      "[demo_event]"]
  from t run r m have c1: "length (filter (\<lambda>f. f_region f = ''4j1b'') (fills st)) = 11"
    "length (filter (\<lambda>f. f_region f = ''4j2b'') (fills st)) = 11"
    by blast+
  from t ne have c2: "syst_variations ''ttbar'' ''pt_scale_up'' = [''nominal'']"
    by blast
  from t' have "\<forall>st r. process cartesian_ops demo_services ?md' [demo_event] = Inr st
      \<and> r \<in> set regions \<longrightarrow>
         fills_in r st =
           (if md_variation ?md' = ''nominal''
            then (if md_process ?md' = ''wjets'' then 13 else 11) else 1)"
    by blast
  with run' r have c3: "fills_in ''4j1b'' st' = 1" "fills_in ''4j2b'' st' = 1"
    by (simp_all add: m)
  from run run' r m(1,2) ne c1 c2 c3 show ?thesis
    by blast
qed

text \<open>
  Claim C10. Every event that the \<open>4j2b\<close> mask keeps has at least four jets of which
  at least two are b-tagged, hence a triple of jets whose largest b-tag score is above
  the threshold. So the trijet mass has exactly one entry for each kept event, and
  that entry is a number; every fill of the region gets this observable, and its
  observable and its weights have the same length.
\<close>

theorem selected_4j2b_events_have_an_entry:
  assumes "region_selection elecs muons jets = Inr selections"
    and "fill_region ops sv md w syst_var selections jets st ''4j2b'' = Inr st'"
  shows "\<exists>selection region_jets.
       selections_all selections [''4j2b''] = Inr selection
     \<and> apply_mask jets selection = Inr region_jets
     \<and> (\<forall>js\<in>set region_jets.
           4 \<le> length js \<and> 2 \<le> length (filter btagged js) \<and> trijet_candidates ops js \<noteq> [])
     \<and> length (calculate_m_reco_top ops region_jets) = length region_jets
     \<and> (\<forall>v\<in>set (calculate_m_reco_top ops region_jets). v \<noteq> None)
     \<and> length (fills st) < length (fills st')
     \<and> (\<forall>f\<in>set (drop (length (fills st)) (fills st')).
           f_observable f = calculate_m_reco_top ops region_jets
           \<and> length (f_observable f) = length (f_weight f))"
proof -
  note len = region_selection_lengths [OF assms(1)]
  have sel: "selections = registered elecs muons jets"
    by (rule region_selection_Inr [OF assms(1)])
  from fill_region_Inr [OF assms(2)] obtain selection rj obs where
    sa: "selections_all selections [''4j2b''] = Inr selection"
    and am: "apply_mask jets selection = Inr rj"
    and ob: "observable_of ops ''4j2b'' rj = Inr obs"
    and eff: "if syst_var \<in> set (event_systs (md_process md))
        then \<exists>family input up down.
               weight_input syst_var rj = Inr (family, input)
             \<and> evaluate sv family ''up'' input = Inr up
             \<and> evaluate sv family ''down'' input = Inr down
             \<and> length up = length rj \<and> length down = length rj
             \<and> queries st' = queries st
                 @ [weight_query family ''up'' input, weight_query family ''down'' input]
             \<and> fills st' = fills st
                 @ [weighted_fill md w syst_var ''4j2b'' obs ''up'' up,
                    weighted_fill md w syst_var ''4j2b'' obs ''down'' down]
        else queries st' = queries st
             \<and> fills st' = fills st @ [plain_fill md w syst_var ''4j2b'' obs (length rj)]"
    by blast
  from sa have m: "selection = mask_4j2b elecs muons jets"
    by (simp add: sel registered_all(2) [OF len [THEN conjunct1] len [THEN conjunct2]])
  from ob have obs: "obs = calculate_m_reco_top ops rj"
    by (simp add: observable_of_def)
  have kept: "4 \<le> length js \<and> 2 \<le> length (filter btagged js) \<and> trijet_candidates ops js \<noteq> []"
    if js: "js \<in> set rj" for js
  proof -
    from region_jets_4j2b [OF len [THEN conjunct1] len [THEN conjunct2] am [unfolded m] js]
    have p: "4 \<le> length js" "2 \<le> length (filter btagged js)"
      by (simp_all add: atleast_4j_def atleast_2b_def)
    from p(2) have "filter btagged js \<noteq> []"
      by auto
    then have "\<exists>j\<in>set js. btagged j"
      by (auto simp: filter_empty_conv)
    from tagged_triple_survives [OF _ this] p(1) have "trijet_candidates ops js \<noteq> []"
      by simp
    with p show ?thesis by simp
  qed
  have l: "length (calculate_m_reco_top ops rj) = length rj"
    by (simp add: calculate_m_reco_top_map)
  have some: "\<forall>v\<in>set (calculate_m_reco_top ops rj). v \<noteq> None"
  proof
    fix v
    assume "v \<in> set (calculate_m_reco_top ops rj)"
    then obtain js where js: "js \<in> set rj" and v: "v = trijet_mass_entry ops js"
      by (auto simp: calculate_m_reco_top_map)
    from kept [OF js] have "trijet_candidates ops js \<noteq> []"
      by simp
    then show "v \<noteq> None"
      by (simp add: v trijet_mass_entry_None)
  qed
  have new: "length (fills st) < length (fills st')
     \<and> (\<forall>f\<in>set (drop (length (fills st)) (fills st')).
           f_observable f = calculate_m_reco_top ops rj
           \<and> length (f_observable f) = length (f_weight f))"
  proof (cases "syst_var \<in> set (event_systs (md_process md))")
    case True
    with eff obtain up down where
      "length up = length rj" "length down = length rj"
      "fills st' = fills st
                 @ [weighted_fill md w syst_var ''4j2b'' obs ''up'' up,
                    weighted_fill md w syst_var ''4j2b'' obs ''down'' down]"
      by auto
    then show ?thesis
      by (simp add: weighted_fill_def obs l)
  next
    case False
    with eff have "fills st' = fills st @ [plain_fill md w syst_var ''4j2b'' obs (length rj)]"
      by simp
    then show ?thesis
      by (simp add: plain_fill_def obs l)
  qed
  show ?thesis
    apply (rule exI [of _ selection], rule exI [of _ rj])
    apply (intro conjI)
          apply (rule sa)
         apply (rule am)
        apply (rule ballI, erule kept)
       apply (rule l)
      apply (rule some)
     apply (rule new [THEN conjunct1])
    apply (rule new [THEN conjunct2])
    done
qed

theorem selected_4j2b_events_have_an_entry_witness:
  "\<exists>selections st'.
     region_selection [[], []] [[demo_muon], [demo_muon]]
       [[demo_jet 40 0.9, demo_jet 50 0.9, demo_jet 60 0.1, demo_jet 70 0.1], demo_jets]
       = Inr selections
   \<and> fill_region cartesian_ops demo_services (demo_metadata ''ttbar'' ''nominal'') 2
       ''btag_var_3'' selections
       [[demo_jet 40 0.9, demo_jet 50 0.9, demo_jet 60 0.1, demo_jet 70 0.1], demo_jets]
       empty_state ''4j2b'' = Inr st'
   \<and> selections_all selections [''4j2b''] = Inr [True, False]
   \<and> length (fills st') = 2
   \<and> (\<forall>f\<in>set (fills st').
         f_observable f = calculate_m_reco_top cartesian_ops
           [[demo_jet 40 0.9, demo_jet 50 0.9, demo_jet 60 0.1, demo_jet 70 0.1]]
         \<and> length (f_observable f) = 1 \<and> length (f_weight f) = 1)"
proof -
  let ?J = "[[demo_jet 40 0.9, demo_jet 50 0.9, demo_jet 60 0.1, demo_jet 70 0.1], demo_jets]"
  let ?E = "[[], []] :: electron list list"
  let ?M = "[[demo_muon], [demo_muon]]"
  have rs: "region_selection ?E ?M ?J = Inr (registered ?E ?M ?J)"
    by (rule region_selection_value) simp_all
  have r: "''4j2b'' \<in> set regions"
    by (simp add: regions_def)
  have "\<exists>st'. fill_region cartesian_ops demo_services (demo_metadata ''ttbar'' ''nominal'') 2
       ''btag_var_3'' (registered ?E ?M ?J) ?J empty_state ''4j2b'' = Inr st'"
    by (rule fill_region_succeeds) (simp_all add: r demo_services_ok)
  then obtain st' where
    run: "fill_region cartesian_ops demo_services (demo_metadata ''ttbar'' ''nominal'') 2
       ''btag_var_3'' (registered ?E ?M ?J) ?J empty_state ''4j2b'' = Inr st'"
    by blast
  have mask: "selections_all (registered ?E ?M ?J) [''4j2b''] = Inr [True, False]"
    by (simp add: registered_all mask_4j2b_def zip3_def exactly_1l_def atleast_4j_def
        atleast_2b_def btagged_def B_TAG_THRESHOLD_def demo_jets_def demo_jet_def)
  from selected_4j2b_events_have_an_entry [OF rs run] obtain selection region_jets where
    f: "selections_all (registered ?E ?M ?J) [''4j2b''] = Inr selection"
      "apply_mask ?J selection = Inr region_jets"
      "length (fills empty_state) < length (fills st')"
      "\<forall>f\<in>set (drop (length (fills empty_state)) (fills st')).
           f_observable f = calculate_m_reco_top cartesian_ops region_jets
           \<and> length (f_observable f) = length (f_weight f)"
      "length (calculate_m_reco_top cartesian_ops region_jets) = length region_jets"
    by blast
  from f(1) mask have s: "selection = [True, False]"
    by simp
  from f(2) have rj: "region_jets
      = [[demo_jet 40 0.9, demo_jet 50 0.9, demo_jet 60 0.1, demo_jet 70 0.1]]"
    by (simp add: s apply_mask_def)
  have fe: "fills empty_state = []"
    by (simp add: empty_state_def)
  have mem: "''btag_var_3'' \<in> set (event_systs (md_process (demo_metadata ''ttbar'' ''nominal'')))"
    by (simp add: in_event_systs)
  from fill_region_Inr [OF run] mem obtain a b where "fills st' = fills empty_state @ [a, b]"
    by auto
  then have two: "length (fills st') = 2"
    by (simp add: fe)
  from f(5) have one: "length (calculate_m_reco_top cartesian_ops
      [[demo_jet 40 0.9, demo_jet 50 0.9, demo_jet 60 0.1, demo_jet 70 0.1]]) = 1"
    by (simp add: rj)
  from f(4) have each: "\<forall>f\<in>set (fills st').
         f_observable f = calculate_m_reco_top cartesian_ops
           [[demo_jet 40 0.9, demo_jet 50 0.9, demo_jet 60 0.1, demo_jet 70 0.1]]
         \<and> length (f_observable f) = length (f_weight f)"
    by (auto simp: fe rj)
  with one have "\<forall>f\<in>set (fills st').
         f_observable f = calculate_m_reco_top cartesian_ops
           [[demo_jet 40 0.9, demo_jet 50 0.9, demo_jet 60 0.1, demo_jet 70 0.1]]
         \<and> length (f_observable f) = 1 \<and> length (f_weight f) = 1"
    by (metis (no_types, lifting))
  with rs run mask two show ?thesis
    by blast
qed

end
